theory Spec2Isabelle
  imports Main
begin

section \<open>Data model\<close>

text \<open>
  JavaScript strings are sequences of UTF-16 code units, but every string the highlight
  code looks at is well-formed text, so a string is modelled as its list of code
  points, which are integers. \<open>s.length\<close> counts UTF-16 code units (two for a code
  point beyond the Basic Multilingual Plane), \<open>[...s].length\<close> counts code points.
\<close>

type_synonym jsstring = "int list"

definition js_length :: "jsstring \<Rightarrow> nat" where
  "js_length s = sum_list (map (\<lambda>c. if c < 65536 then 1 else 2) s)"

definition cp_count :: "jsstring \<Rightarrow> nat" where
  "cp_count s = length s"

abbreviation TAB :: jsstring where "TAB \<equiv> [9]"
abbreviation SPACE :: int where "SPACE \<equiv> 32"

text \<open>\<open>interface ValidCell { text; hlId }\<close> and
  \<open>interface Highlight extends ValidCell { virtText? }\<close>.\<close>

record valid_cell =
  "text" :: jsstring
  hlId :: nat

record highlight = valid_cell +
  virtText :: "jsstring option"

datatype js_error = TypeError | RangeError

text \<open>
  A JavaScript array with holes: \<open>length\<close> is the length of the list, a hole is \<open>None\<close>.
  Reading out of range gives \<open>undefined\<close>, writing beyond the end extends the array with
  holes, \<open>delete\<close> leaves a hole and keeps the length, and \<open>forEach\<close> visits the indices
  that are not holes in ascending order.
\<close>

type_synonym 'a sparse = "'a option list"

definition arr_get :: "'a sparse \<Rightarrow> nat \<Rightarrow> 'a option" where
  "arr_get xs i = (if i < length xs then xs ! i else None)"

definition arr_set :: "'a sparse \<Rightarrow> nat \<Rightarrow> 'a \<Rightarrow> 'a sparse" where
  "arr_set xs i v =
     (if i < length xs then xs[i := Some v]
      else xs @ replicate (i - length xs) None @ [Some v])"

definition arr_delete :: "'a sparse \<Rightarrow> nat \<Rightarrow> 'a sparse" where
  "arr_delete xs i = (if i < length xs then xs[i := None] else xs)"

text \<open>\<open>delete a[i]\<close> at a negative \<open>i\<close> names a property that is not an element.\<close>

definition arr_delete_int :: "'a sparse \<Rightarrow> int \<Rightarrow> 'a sparse" where
  "arr_delete_int xs i = (if i < 0 then xs else arr_delete xs (nat i))"

definition arr_indices :: "'a sparse \<Rightarrow> nat list" where
  "arr_indices xs = filter (\<lambda>i. xs ! i \<noteq> None) [0..<length xs]"

definition arr_entries :: "'a sparse \<Rightarrow> (nat \<times> 'a) list" where
  "arr_entries xs =
     concat (map (\<lambda>i. case xs ! i of None \<Rightarrow> [] | Some v \<Rightarrow> [(i, v)]) [0..<length xs])"

text \<open>Reading a dense array: \<open>xs[i]\<close> is \<open>undefined\<close> out of range.\<close>

definition nth_opt :: "'a list \<Rightarrow> nat \<Rightarrow> 'a option" where
  "nth_opt xs i = (if i < length xs then Some (xs ! i) else None)"

text \<open>\<open>xs.slice(a, b)\<close> for indices that are not negative.\<close>

definition js_slice :: "'a list \<Rightarrow> nat \<Rightarrow> nat \<Rightarrow> 'a list" where
  "js_slice xs a b = drop a (take b xs)"

text \<open>\<open>xs.slice(0, e)\<close>: a negative end counts from the end of the array.\<close>

definition js_slice_to :: "'a list \<Rightarrow> int \<Rightarrow> 'a list" where
  "js_slice_to xs e = (if 0 \<le> e then take (nat e) xs else take (length xs - nat (- e)) xs)"

text \<open>
  \<open>findLast\<close> and \<open>lastIndexOf\<close>: the greatest index whose element satisfies the
  test, if there is one.
\<close>

definition findLastIndex :: "('a \<Rightarrow> bool) \<Rightarrow> 'a list \<Rightarrow> nat option" where
  "findLastIndex finder arr =
     (case filter (\<lambda>i. finder (arr ! i)) (rev [0..<length arr]) of
        [] \<Rightarrow> None
      | i # _ \<Rightarrow> Some i)"

text \<open>
  A JavaScript \<open>Map\<close> keeps its keys in insertion order: \<open>set\<close> on a key that is
  present replaces the value in place, on a new key it appends. \<open>map_push\<close> is the
  idiom \<open>if (!m.has(k)) m.set(k, []); m.get(k).push(...new)\<close>.
\<close>

fun map_set :: "'k \<Rightarrow> 'v \<Rightarrow> ('k \<times> 'v) list \<Rightarrow> ('k \<times> 'v) list" where
  "map_set k v [] = [(k, v)]"
| "map_set k v (p # ps) = (if fst p = k then (k, v) # ps else p # map_set k v ps)"

definition map_push :: "'k \<Rightarrow> 'v list \<Rightarrow> ('k \<times> 'v list) list \<Rightarrow> ('k \<times> 'v list) list" where
  "map_push k new m = map_set k ((case map_of m k of None \<Rightarrow> [] | Some old \<Rightarrow> old) @ new) m"

text \<open>A string is truthy when it is defined and not empty.\<close>

definition truthy :: "jsstring option \<Rightarrow> bool" where
  "truthy s = (case s of None \<Rightarrow> False | Some t \<Rightarrow> t \<noteq> [])"

text \<open>\<open>private grid: Highlight[][][]\<close>: rows, columns, the entries of a column.\<close>

type_synonym grid_row = "highlight list sparse"
type_synonym grid = "grid_row sparse"

section \<open>Row clearing and shifting\<close>

definition cleanRow :: "nat \<Rightarrow> 'a sparse \<Rightarrow> 'a sparse" where
  "cleanRow row grid = arr_delete grid row"

text \<open>
  \<open>this.grid[tgt] = this.grid[idx]; delete this.grid[idx]\<close>. The index \<open>idx\<close> comes from
  \<open>forEach\<close> and is moved once, before any index that could overwrite it, so it is not
  a hole when it is moved; for a hole the array is left as it is. A negative target
  names a property that is not an element.
\<close>

definition moveRow :: "'a sparse \<Rightarrow> nat \<Rightarrow> int \<Rightarrow> 'a sparse" where
  "moveRow g idx tgt =
     (case arr_get g idx of
        None \<Rightarrow> g
      | Some r \<Rightarrow> arr_delete (if tgt < 0 then g else arr_set g (nat tgt) r) idx)"

definition shiftHighlights :: "int \<Rightarrow> nat \<Rightarrow> 'a sparse \<Rightarrow> 'a sparse" where
  "shiftHighlights by from grid =
     (if by > 0 then
        let g1 = fold (\<lambda>i g. arr_delete g (from + i)) [0..<nat by] grid;
            idxs = arr_indices g1
        in fold (\<lambda>idx g. if idx \<le> from then g else moveRow g idx (int idx - by)) idxs g1
      else if by < 0 then
        let g1 = fold (\<lambda>i g. arr_delete_int g
                        (if from \<noteq> 0 then int from + int i else int (length g) - 1 - int i))
                   [0..<nat \<bar>by\<bar>] grid;
            idxs = arr_indices g1
        in fold (\<lambda>idx g. if idx \<le> from then g else moveRow g idx (int idx + \<bar>by\<bar>))
             (rev idxs) g1
      else grid)"

text \<open>
  \<open>HighlightProvider.shiftGridHighlights\<close> keeps one such array per grid id and runs the
  same two loops on the array of the grid, when there is one.
\<close>

definition shiftGridHighlights ::
  "(nat \<rightharpoonup> 'a sparse) \<Rightarrow> nat \<Rightarrow> int \<Rightarrow> nat \<Rightarrow> (nat \<rightharpoonup> 'a sparse)" where
  "shiftGridHighlights highlights grid by from =
     (case highlights grid of
        None \<Rightarrow> highlights
      | Some gridHl \<Rightarrow> highlights(grid \<mapsto> shiftHighlights by from gridHl))"

section \<open>The cell-run processor\<close>

text \<open>
  \<open>processHighlightCellsEvent\<close> imports \<open>getWidth\<close>, \<open>isDouble\<close>, \<open>splitGraphemes\<close>
  and \<open>calculateEditorColFromVimScreenCol\<close> from modules that are not part of the
  sources at hand, so the processor takes them as a parameter. Widths are numbers of
  screen cells, hence natural numbers.
\<close>

record text_utils =
  splitGraphemes :: "jsstring \<Rightarrow> jsstring list"
  getWidth :: "jsstring \<Rightarrow> nat \<Rightarrow> nat"
  isDouble :: "jsstring \<Rightarrow> bool"
  calculateEditorColFromVimScreenCol :: "jsstring \<Rightarrow> nat \<Rightarrow> nat \<Rightarrow> nat"

text \<open>\<open>interface HighlightCellsEvent { row; vimCol; validCells; lineText; tabSize }\<close>\<close>

record highlight_cells_event =
  ev_row :: nat
  ev_vimCol :: nat
  ev_validCells :: "valid_cell list"
  ev_lineText :: jsstring
  ev_tabSize :: nat

text \<open>\<open>add(cell)\<close> and \<open>add(cell, virtText)\<close>: the entry \<open>{ ...cell, virtText }\<close>.\<close>

definition real_hl :: "valid_cell \<Rightarrow> highlight" where
  "real_hl cell = \<lparr>text = text cell, hlId = hlId cell, virtText = None\<rparr>"

definition virt_hl :: "valid_cell \<Rightarrow> jsstring \<Rightarrow> highlight" where
  "virt_hl cell vt = \<lparr>text = text cell, hlId = hlId cell, virtText = Some vt\<rparr>"

text \<open>
  \<open>calcTabCells\<close>: the number of cells the tab at \<open>tabCol\<close> occupies. With a tab size
  of zero JavaScript computes \<open>NaN\<close>, which fails every comparison it is used in, as
  the value 0 computed here does.
\<close>

definition calcTabCells :: "text_utils \<Rightarrow> jsstring list \<Rightarrow> nat \<Rightarrow> nat \<Rightarrow> nat" where
  "calcTabCells U lineChars tabSize tabCol =
     (let nearestTabIdx =
            (case findLastIndex (\<lambda>c. c = TAB) (js_slice lineChars 0 tabCol) of
               None \<Rightarrow> 0 | Some i \<Rightarrow> i + 1);
          center = concat (js_slice lineChars nearestTabIdx tabCol)
      in tabSize - (getWidth U center tabSize mod tabSize))"

text \<open>
  \<open>filledLineText\<close>: every grapheme followed by one space for each UTF-16 code unit
  beyond its first. \<open>" ".repeat(-1)\<close> raises \<open>RangeError\<close>, which an empty grapheme
  would cause.
\<close>

definition fillLineText :: "jsstring list \<Rightarrow> js_error + jsstring" where
  "fillLineText graphemes =
     fold (\<lambda>c acc. case acc of
                      Inl e \<Rightarrow> Inl e
                    | Inr p \<Rightarrow> if js_length c = 0 then Inl RangeError
                               else Inr (p @ c @ replicate (js_length c - 1) SPACE))
       graphemes (Inr [])"

text \<open>The constants \<open>expectedCells\<close>, \<open>expectedVimCol\<close> and \<open>rightHls\<close> of the source.\<close>

definition expectedCellsAt ::
  "text_utils \<Rightarrow> highlight_cells_event \<Rightarrow> jsstring list \<Rightarrow> nat \<Rightarrow> nat" where
  "expectedCellsAt U ev lineChars prevCol =
     (let prevChar = nth_opt lineChars prevCol
      in if prevChar = Some TAB then calcTabCells U lineChars (ev_tabSize ev) prevCol
         else getWidth U (case prevChar of None \<Rightarrow> [] | Some c \<Rightarrow> c) (ev_tabSize ev))"

definition expectedVimColAt ::
  "text_utils \<Rightarrow> highlight_cells_event \<Rightarrow> jsstring list \<Rightarrow> nat \<Rightarrow> nat" where
  "expectedVimColAt U ev lineChars editorCol =
     getWidth U (concat (js_slice lineChars 0 editorCol)) (ev_tabSize ev)"

definition rightHlsOf :: "highlight_cells_event \<Rightarrow> nat \<Rightarrow> highlight list" where
  "rightHlsOf ev n = map (\<lambda>cell. virt_hl cell (text cell)) (take n (ev_validCells ev))"

text \<open>
  The region ``if the previous column can contain multiple cells''. It returns the row
  and the position of the cell iterator: the loop calls \<open>cellIter.next()\<close> \<open>n\<close> times
  whether or not cells are left.
\<close>

definition rederivePrevCol ::
  "text_utils \<Rightarrow> highlight_cells_event \<Rightarrow> jsstring list \<Rightarrow> nat \<Rightarrow> grid_row \<Rightarrow>
   grid_row \<times> nat" where
  "rederivePrevCol U ev lineChars editorCol gridRow =
     (if editorCol > 0 then
        let prevCol = editorCol - 1;
            expectedCells = expectedCellsAt U ev lineChars prevCol
        in if expectedCells > 1 then
             let expectedVimCol = expectedVimColAt U ev lineChars editorCol
             in if expectedVimCol > ev_vimCol ev then
                  let n = expectedVimCol - ev_vimCol ev;
                      rightHls = rightHlsOf ev n;
                      keep = int expectedCells - int (length rightHls);
                      leftHls = (if keep \<noteq> 0
                                 then js_slice_to (case arr_get gridRow prevCol of
                                                     None \<Rightarrow> [] | Some hs \<Rightarrow> hs) keep
                                 else [])
                  in (arr_set gridRow prevCol (leftHls @ rightHls), n)
                else (gridRow, 0)
           else (gridRow, 0)
      else (gridRow, 0))"

text \<open>
  The start of \<open>processHighlightCellsEvent\<close> up to the end of that region: the row is
  created when it is missing, and the previous column is re-derived.
\<close>

definition prepareRow ::
  "text_utils \<Rightarrow> highlight_cells_event \<Rightarrow> grid \<Rightarrow> grid_row \<times> nat" where
  "prepareRow U ev grid =
     (let gridRow = (case arr_get grid (ev_row ev) of None \<Rightarrow> [] | Some r \<Rightarrow> r);
          lineChars = splitGraphemes U (ev_lineText ev);
          editorCol = calculateEditorColFromVimScreenCol U (ev_lineText ev) (ev_vimCol ev)
                        (ev_tabSize ev)
      in rederivePrevCol U ev lineChars editorCol gridRow)"

text \<open>
  One pass through the body of the \<open>while (cell)\<close> loop, up to the point where the
  column is stored: the column \<open>hlCol\<close>, its entries \<open>hls\<close>, the position of the cell
  iterator and \<open>currCharCol\<close>. \<open>cellBranch\<close> is the \<open>do { ... } while (false)\<close> block.
\<close>

record cell_result =
  cr_hlCol :: nat
  cr_hls :: "highlight list"
  cr_index :: nat
  cr_currCharCol :: nat

definition cellBranch ::
  "text_utils \<Rightarrow> jsstring list \<Rightarrow> nat \<Rightarrow> valid_cell list \<Rightarrow> valid_cell \<Rightarrow> nat \<Rightarrow>
   jsstring option \<Rightarrow> nat \<Rightarrow> nat \<Rightarrow> highlight list \<times> nat \<times> nat" where
  "cellBranch U lineChars tabSize cells cell idx currChar extraCols currCharCol =
     (if currChar = Some TAB then
        let n = calcTabCells U lineChars tabSize currCharCol - 1
        in (virt_hl cell (text cell) # map (\<lambda>c. virt_hl c (text c)) (take n (drop idx cells)),
            idx + n, currCharCol)
      else if (case currChar of None \<Rightarrow> False | Some ch \<Rightarrow> ch \<noteq> [] \<and> isDouble U ch) then
        if currChar = Some (text cell) then ([real_hl cell], idx, currCharCol)
        else if \<not> isDouble U (text cell) then
          let nextCell = nth_opt cells idx
          in ([virt_hl cell (text cell)]
              @ (case nextCell of None \<Rightarrow> [] | Some nc \<Rightarrow> [virt_hl nc (text nc)])
              @ (if extraCols \<noteq> 0
                 then [virt_hl (case nextCell of None \<Rightarrow> cell | Some nc \<Rightarrow> nc)
                         (replicate extraCols SPACE)]
                 else []),
              Suc idx, currCharCol)
        else ([virt_hl cell (text cell)], idx, currCharCol)
      else if currChar = Some (text cell) then ([real_hl cell], idx, currCharCol)
      else ([virt_hl cell (text cell)], idx,
            if isDouble U (text cell) then currCharCol + 1 else currCharCol))"

definition walkCell ::
  "text_utils \<Rightarrow> jsstring list \<Rightarrow> jsstring list \<Rightarrow> nat \<Rightarrow> valid_cell list \<Rightarrow>
   valid_cell \<Rightarrow> nat \<Rightarrow> nat \<Rightarrow> cell_result" where
  "walkCell U lineChars filledLineChars tabSize cells cell idx currCharCol0 =
     (let currChar = nth_opt filledLineChars currCharCol0;
          extraCols = (case currChar of None \<Rightarrow> 0
                       | Some ch \<Rightarrow> if ch \<noteq> [] then js_length ch - 1 else 0);
          currCharCol = currCharCol0 + extraCols;
          hlCol = currCharCol - (case currChar of None \<Rightarrow> 0
                                  | Some ch \<Rightarrow> if ch \<noteq> [] then cp_count ch - 1 else 0);
          (hls, idx', currCharCol') =
             cellBranch U lineChars tabSize cells cell idx currChar extraCols currCharCol
      in \<lparr>cr_hlCol = hlCol, cr_hls = hls, cr_index = idx', cr_currCharCol = currCharCol'\<rparr>)"

text \<open>
  The end of the loop body: an empty list, or one without a non-zero id, deletes the
  stored column if there is one; any other list is stored and sets \<open>hasUpdates\<close>.
\<close>

definition storeCol :: "nat \<Rightarrow> highlight list \<Rightarrow> grid_row \<times> bool \<Rightarrow> grid_row \<times> bool" where
  "storeCol hlCol hls st =
     (case st of (gridRow, hasUpdates) \<Rightarrow>
        if hls = [] \<or> \<not> (\<exists>d \<in> set hls. hlId d \<noteq> 0) then
          (if arr_get gridRow hlCol \<noteq> None then (arr_delete gridRow hlCol, True)
           else (gridRow, hasUpdates))
        else (arr_set gridRow hlCol hls, True))"

text \<open>
  The loop \<open>let cell = cellIter.next(); while (cell) { ...; cell = cellIter.next() }\<close>. The
  argument \<open>pos\<close> is the index of the current cell, so the iterator stands at \<open>pos + 1\<close>
  when the body starts; after the body the next current cell is the one the iterator
  stands at. The loop ends when that index is beyond the cells.
\<close>

function cellWalk ::
  "text_utils \<Rightarrow> jsstring list \<Rightarrow> jsstring list \<Rightarrow> nat \<Rightarrow> valid_cell list \<Rightarrow>
   nat \<Rightarrow> nat \<Rightarrow> grid_row \<times> bool \<Rightarrow> grid_row \<times> bool" where
  "cellWalk U lineChars filledLineChars tabSize cells pos currCharCol st =
     (case nth_opt cells pos of
        None \<Rightarrow> st
      | Some cell \<Rightarrow>
          let r = walkCell U lineChars filledLineChars tabSize cells cell (Suc pos) currCharCol
          in cellWalk U lineChars filledLineChars tabSize cells (cr_index r)
               (cr_currCharCol r + 1) (storeCol (cr_hlCol r) (cr_hls r) st))"
  by pat_completeness auto
termination
proof (relation "measure (\<lambda>(U, lineChars, filled, tabSize, cells, pos, c, st). length cells - pos)")
  show "wf (measure (\<lambda>(U, lineChars, filled, tabSize, cells, pos, c, st). length cells - pos))"
    by simp
next
  fix U lineChars filledLineChars tabSize cells pos currCharCol
    and st :: "grid_row \<times> bool" and cell r
  assume cur: "nth_opt cells pos = Some cell"
    and r: "r = walkCell U lineChars filledLineChars tabSize cells cell (Suc pos) currCharCol"
  have branch: "idx \<le> fst (snd (cellBranch U lineChars tabSize cells cell idx ch ex c))"
    for idx ch ex c
    by (simp add: cellBranch_def Let_def)
  from cur have "pos < length cells"
    by (auto simp: nth_opt_def split: if_splits)
  moreover have "Suc pos \<le> cr_index r"
    unfolding r walkCell_def Let_def using branch by (simp add: case_prod_beta)
  ultimately show
    "((U, lineChars, filledLineChars, tabSize, cells, cr_index r, cr_currCharCol r + 1,
       storeCol (cr_hlCol r) (cr_hls r) st),
      (U, lineChars, filledLineChars, tabSize, cells, pos, currCharCol, st))
     \<in> measure (\<lambda>(U, lineChars, filled, tabSize, cells, pos, c, st). length cells - pos)"
    by simp
qed

declare cellWalk.simps [simp del]

text \<open>The same loop with a budget of iterations: \<open>None\<close> when the budget runs out.\<close>

fun cellWalkFuel ::
  "nat \<Rightarrow> text_utils \<Rightarrow> jsstring list \<Rightarrow> jsstring list \<Rightarrow> nat \<Rightarrow> valid_cell list \<Rightarrow>
   nat \<Rightarrow> nat \<Rightarrow> grid_row \<times> bool \<Rightarrow> (grid_row \<times> bool) option" where
  "cellWalkFuel 0 U lineChars filledLineChars tabSize cells pos currCharCol st = None"
| "cellWalkFuel (Suc fuel) U lineChars filledLineChars tabSize cells pos currCharCol st =
     (case nth_opt cells pos of
        None \<Rightarrow> Some st
      | Some cell \<Rightarrow>
          let r = walkCell U lineChars filledLineChars tabSize cells cell (Suc pos) currCharCol
          in cellWalkFuel fuel U lineChars filledLineChars tabSize cells (cr_index r)
               (cr_currCharCol r + 1) (storeCol (cr_hlCol r) (cr_hls r) st))"

text \<open>
  \<open>processHighlightCellsEvent\<close>. The row is updated in place, so the grid afterwards
  holds the row in its last state, also when \<open>RangeError\<close> leaves the function early.
\<close>

definition processHighlightCellsEvent ::
  "text_utils \<Rightarrow> highlight_cells_event \<Rightarrow> grid \<Rightarrow> grid \<times> (js_error + bool)" where
  "processHighlightCellsEvent U ev grid =
     (let lineChars = splitGraphemes U (ev_lineText ev);
          editorCol = calculateEditorColFromVimScreenCol U (ev_lineText ev) (ev_vimCol ev)
                        (ev_tabSize ev);
          (gridRow1, idx) = prepareRow U ev grid
      in case fillLineText (splitGraphemes U (ev_lineText ev)) of
           Inl e \<Rightarrow> (arr_set grid (ev_row ev) gridRow1, Inl e)
         | Inr filledLineText \<Rightarrow>
             let filledLineChars = splitGraphemes U filledLineText;
                 (gridRow2, hasUpdates) =
                   cellWalk U lineChars filledLineChars (ev_tabSize ev) (ev_validCells ev)
                     idx editorCol (gridRow1, False)
             in (arr_set grid (ev_row ev) gridRow2, Inr hasUpdates))"

section \<open>The range builder\<close>

text \<open>
  \<open>NormalHighlightRange\<close> and \<open>VirtualHighlightRange\<close>; the field \<open>textType\<close> is the
  constructor.
\<close>

record normal_range =
  nr_hlId :: nat
  nr_line :: nat
  startCol :: nat
  endCol :: nat

record virtual_range =
  vr_highlights :: "highlight list"
  vr_line :: nat
  vr_col :: nat

datatype highlight_range = NormalRange normal_range | VirtualRange virtual_range

text \<open>
  \<open>buildHighlightRanges\<close>: the variables of one row, with the result array \<open>res\<close> that
  all rows share.
\<close>

record build_state =
  res :: "highlight_range list"
  currHighlight :: "highlight option"
  currStartCol :: nat
  currEndCol :: nat

text \<open>\<open>if (currHighlight) res.push({ textType: "normal", ... })\<close>\<close>

definition closeRange :: "nat \<Rightarrow> build_state \<Rightarrow> highlight_range list" where
  "closeRange line st =
     (case currHighlight st of
        None \<Rightarrow> res st
      | Some h \<Rightarrow> res st @ [NormalRange \<lparr>nr_hlId = hlId h, nr_line = line,
                                         startCol = currStartCol st,
                                         endCol = currEndCol st + 1\<rparr>])"

text \<open>
  The callback of \<open>rowHighlights.forEach\<close>. On an empty entry list
  \<open>colHighlights[0].virtText\<close> reads a property of \<open>undefined\<close>, a \<open>TypeError\<close>.
\<close>

definition buildCol ::
  "nat \<Rightarrow> nat \<Rightarrow> highlight list \<Rightarrow> build_state \<Rightarrow> js_error + build_state" where
  "buildCol line col colHighlights st =
     (if length colHighlights > 1 then
        Inr (st\<lparr>res := res st @
                 [VirtualRange \<lparr>vr_highlights = colHighlights, vr_line = line, vr_col = col\<rparr>]\<rparr>)
      else case colHighlights of
        [] \<Rightarrow> Inl TypeError
      | highlight # _ \<Rightarrow>
          if truthy (virtText highlight) then
            Inr (st\<lparr>res := res st @
                     [VirtualRange \<lparr>vr_highlights = colHighlights, vr_line = line,
                                    vr_col = col\<rparr>]\<rparr>)
          else if map_option hlId (currHighlight st) = Some (hlId highlight)
                  \<and> int (currEndCol st) = int col - 1 then
            Inr (st\<lparr>currEndCol := col\<rparr>)
          else
            Inr \<lparr>res = closeRange line st, currHighlight = Some highlight,
                 currStartCol = col, currEndCol = col\<rparr>)"

fun buildCols ::
  "nat \<Rightarrow> (nat \<times> highlight list) list \<Rightarrow> build_state \<Rightarrow> js_error + build_state" where
  "buildCols line [] st = Inr st"
| "buildCols line ((col, colHighlights) # rest) st =
     (case buildCol line col colHighlights st of
        Inl e \<Rightarrow> Inl e
      | Inr st' \<Rightarrow> buildCols line rest st')"

text \<open>The callback of \<open>this.grid.forEach\<close>: one row, given \<open>res\<close> so far.\<close>

definition buildRow ::
  "nat \<Rightarrow> grid_row \<Rightarrow> highlight_range list \<Rightarrow> js_error + highlight_range list" where
  "buildRow line rowHighlights res0 =
     (case buildCols line (arr_entries rowHighlights)
             \<lparr>res = res0, currHighlight = None, currStartCol = 0, currEndCol = 0\<rparr> of
        Inl e \<Rightarrow> Inl e
      | Inr st \<Rightarrow> Inr (closeRange line st))"

fun buildRows ::
  "nat \<Rightarrow> (nat \<times> grid_row) list \<Rightarrow> highlight_range list \<Rightarrow>
   js_error + highlight_range list" where
  "buildRows topLine [] res0 = Inr res0"
| "buildRows topLine ((row, rowHighlights) # rest) res0 =
     (case buildRow (row + topLine) rowHighlights res0 of
        Inl e \<Rightarrow> Inl e
      | Inr res1 \<Rightarrow> buildRows topLine rest res1)"

definition buildHighlightRanges :: "nat \<Rightarrow> grid \<Rightarrow> js_error + highlight_range list" where
  "buildHighlightRanges topLine grid = buildRows topLine (arr_entries grid) []"

text \<open>
  \<open>lineHighlightsToRanges\<close>, the builder of the per-line variant: normal ranges are
  kept in one list per highlight id, and a column extends the last range of its id
  that ends where the column starts. The argument is the \<open>Map\<close> from column to
  entries, in insertion order.
\<close>

record line_ranges =
  normalHighlights :: "(nat \<times> normal_range list) list"
  virtualHighlights :: "virtual_range list"

definition lineCol :: "nat \<Rightarrow> nat \<times> highlight list \<Rightarrow> line_ranges \<Rightarrow> line_ranges" where
  "lineCol line e st =
     (case e of (col, hls) \<Rightarrow>
        (case hls of
           [] \<Rightarrow> st
         | colHighlight # _ \<Rightarrow>
             if length hls > 1 \<or> truthy (virtText colHighlight) then
               st\<lparr>virtualHighlights := virtualHighlights st @
                     [\<lparr>vr_highlights = hls, vr_line = line, vr_col = col\<rparr>]\<rparr>
             else
               let existingHighlights =
                     (case map_of (normalHighlights st) (hlId colHighlight) of
                        None \<Rightarrow> [] | Some rs \<Rightarrow> rs)
               in case findLastIndex (\<lambda>hl. endCol hl = col) existingHighlights of
                    Some i \<Rightarrow>
                      st\<lparr>normalHighlights :=
                           map_set (hlId colHighlight)
                             (existingHighlights
                                [i := (existingHighlights ! i)\<lparr>endCol := col + 1\<rparr>])
                             (normalHighlights st)\<rparr>
                  | None \<Rightarrow>
                      st\<lparr>normalHighlights :=
                           map_set (hlId colHighlight)
                             (existingHighlights @
                                [\<lparr>nr_hlId = hlId colHighlight, nr_line = line,
                                  startCol = col, endCol = col + 1\<rparr>])
                             (normalHighlights st)\<rparr>))"

definition lineHighlightsToRanges ::
  "nat \<Rightarrow> (nat \<times> highlight list) list \<Rightarrow> highlight_range list" where
  "lineHighlightsToRanges line highlights =
     (let st = fold (lineCol line) highlights \<lparr>normalHighlights = [], virtualHighlights = []\<rparr>
      in map NormalRange (concat (map snd (normalHighlights st)))
         @ map VirtualRange (virtualHighlights st))"

section \<open>Decoration options and refresh\<close>

text \<open>
  \<open>createColVirtTextOptions\<close>, first region: an entry with id 0 that is not the first
  is added to the virtual text of the fragment before it (\<open>virtText ??= text\<close> gives
  an entry without virtual text its cell text).
\<close>

record fragment =
  fr_hlId :: nat
  fr_virtText :: jsstring

definition addFragment :: "highlight \<Rightarrow> fragment list \<Rightarrow> fragment list" where
  "addFragment h processed =
     (let vt = (case virtText h of None \<Rightarrow> text h | Some v \<Rightarrow> v)
      in if hlId h = 0 \<and> length processed > 0
         then butlast processed @
              [(last processed)\<lparr>fr_virtText := fr_virtText (last processed) @ vt\<rparr>]
         else processed @ [\<lparr>fr_hlId = hlId h, fr_virtText = vt\<rparr>])"

definition processColHighlights :: "highlight list \<Rightarrow> fragment list" where
  "processColHighlights colHighlights = fold addFragment colHighlights []"

text \<open>
  A \<open>DecorationOptions\<close> value: a plain range, or an empty range with a \<open>before\<close>
  attachment. The style of the decorator is opaque (\<open>'o\<close>); of the attachment the
  fields computed here are kept: text, margin and width in \<open>ch\<close>, z-index, id.
\<close>

record 'o before_options =
  bo_line :: nat
  bo_col :: nat
  bo_style :: 'o
  contentText :: jsstring
  marginCh :: nat
  widthCh :: nat
  zIndex :: int
  bo_hlId :: nat

datatype 'o decoration_options =
    RangeOptions nat nat nat nat
  | BeforeOptions "'o before_options"

text \<open>
  \<open>groupStore.getDecorator(hlId)\<close> is a parameter: it yields the decorator of the id,
  if it has one, and its style.
\<close>

definition createColVirtTextOptions ::
  "(nat \<Rightarrow> 'd option \<times> 'o) \<Rightarrow> nat \<Rightarrow> jsstring \<Rightarrow> nat \<Rightarrow> highlight list \<Rightarrow>
   (nat \<times> 'o decoration_options list) list" where
  "createColVirtTextOptions getDecorator line lineText col colHighlights =
     (let processedColHighlights = processColHighlights colHighlights;
          virtTextCol = min (js_length lineText) col
      in fold (\<lambda>(frag, offset0) hlId_options.
                 case getDecorator (fr_hlId frag) of
                   (None, _) \<Rightarrow> hlId_options
                 | (Some decorator, options) \<Rightarrow>
                     let width = js_length (fr_virtText frag);
                         offset = (if col > js_length lineText
                                   then offset0 + (col - js_length lineText) else offset0)
                     in map_push (fr_hlId frag)
                          [BeforeOptions \<lparr>bo_line = line, bo_col = virtTextCol,
                             bo_style = options, contentText = fr_virtText frag,
                             marginCh = offset, widthCh = width, zIndex = 99 - int offset,
                             bo_hlId = fr_hlId frag\<rparr>]
                          hlId_options)
           (zip processedColHighlights [0..<length processedColHighlights]) [])"

text \<open>
  \<open>highlightRangesToOptions\<close>: a normal range with id 0 and a virtual range whose
  entries all have id 0 are skipped. \<open>lineAt\<close> is the text of a line of the document.
\<close>

definition rangeToOptions ::
  "(nat \<Rightarrow> jsstring) \<Rightarrow> (nat \<Rightarrow> 'd option \<times> 'o) \<Rightarrow> highlight_range \<Rightarrow>
   (nat \<times> 'o decoration_options list) list \<Rightarrow> (nat \<times> 'o decoration_options list) list" where
  "rangeToOptions lineAt getDecorator rng hlId_options =
     (case rng of
        NormalRange n \<Rightarrow>
          if nr_hlId n = 0 then hlId_options
          else map_push (nr_hlId n)
                 [RangeOptions (nr_line n) (startCol n) (nr_line n) (endCol n)] hlId_options
      | VirtualRange v \<Rightarrow>
          if list_all (\<lambda>hl. hlId hl = 0) (vr_highlights v) then hlId_options
          else fold (\<lambda>(hlId, options) m. map_push hlId options m)
                 (createColVirtTextOptions getDecorator (vr_line v) (lineAt (vr_line v))
                    (vr_col v) (vr_highlights v))
                 hlId_options)"

definition highlightRangesToOptions ::
  "(nat \<Rightarrow> jsstring) \<Rightarrow> (nat \<Rightarrow> 'd option \<times> 'o) \<Rightarrow> highlight_range list \<Rightarrow>
   (nat \<times> 'o decoration_options list) list" where
  "highlightRangesToOptions lineAt getDecorator ranges =
     fold (rangeToOptions lineAt getDecorator) ranges []"

text \<open>
  The older \<open>HighlightProvider\<close> has \<open>interface Highlight { hlId; virtText? }\<close>, without
  the cell text, and its \<open>createColVirtTextOptions\<close> reads \<open>virtText\<close> as it is. A
  fragment's text starts as the \<open>virtText\<close> of an entry, which may be \<open>undefined\<close>, and
  grows by \<open>+=\<close>: \<open>undefined + undefined\<close> is the number \<open>NaN\<close>, and a string added to
  \<open>undefined\<close> or \<open>NaN\<close> is the string with \<open>"undefined"\<close> or \<open>"NaN"\<close> in that place.
\<close>

record provider_highlight =
  ph_hlId :: nat
  ph_virtText :: "jsstring option"

datatype js_text = JsUndefined | JsNaN | JsString jsstring

definition str_undefined :: jsstring where
  "str_undefined = [117, 110, 100, 101, 102, 105, 110, 101, 100]"

definition str_NaN :: jsstring where
  "str_NaN = [78, 97, 78]"

fun js_append :: "js_text \<Rightarrow> jsstring option \<Rightarrow> js_text" where
  "js_append (JsString a) (Some b) = JsString (a @ b)"
| "js_append (JsString a) None = JsString (a @ str_undefined)"
| "js_append JsUndefined (Some b) = JsString (str_undefined @ b)"
| "js_append JsUndefined None = JsNaN"
| "js_append JsNaN (Some b) = JsString (str_NaN @ b)"
| "js_append JsNaN None = JsNaN"

record provider_fragment =
  pf_hlId :: nat
  pf_virtText :: js_text

definition addFragment_provider ::
  "provider_highlight \<Rightarrow> provider_fragment list \<Rightarrow> provider_fragment list" where
  "addFragment_provider h processed =
     (if ph_hlId h = 0 \<and> length processed > 0
      then butlast processed @
           [(last processed)\<lparr>pf_virtText := js_append (pf_virtText (last processed))
                                               (ph_virtText h)\<rparr>]
      else processed @
           [\<lparr>pf_hlId = ph_hlId h,
             pf_virtText = (case ph_virtText h of None \<Rightarrow> JsUndefined | Some t \<Rightarrow> JsString t)\<rparr>])"

definition processColHighlights_provider :: "provider_highlight list \<Rightarrow> provider_fragment list" where
  "processColHighlights_provider colHighlights = fold addFragment_provider colHighlights []"

text \<open>\<open>s.replace(" ", z)\<close> for a one-character string \<open>z\<close>: the first space becomes \<open>z\<close>. The
  provider replaces it by U+200D, the code point 8205.\<close>

fun replace_first :: "int \<Rightarrow> int \<Rightarrow> jsstring \<Rightarrow> jsstring" where
  "replace_first a b [] = []"
| "replace_first a b (c # cs) = (if c = a then b # cs else c # replace_first a b cs)"

text \<open>
  The \<open>before\<close> attachment of the older provider carries no highlight id. Reading
  \<open>virtText.replace\<close> of \<open>undefined\<close> or of a number raises \<open>TypeError\<close>; this happens
  after the decorator has been looked up, so a fragment without decorator is passed
  over whatever its text.
\<close>

record 'o provider_before =
  pb_line :: nat
  pb_col :: nat
  pb_style :: 'o
  pb_contentText :: jsstring
  pb_marginCh :: nat
  pb_widthCh :: nat
  pb_zIndex :: int

definition createColVirtTextOptions_provider ::
  "(nat \<Rightarrow> 'd option) \<Rightarrow> ('d \<Rightarrow> 'o) \<Rightarrow> nat \<Rightarrow> nat \<Rightarrow> provider_highlight list \<Rightarrow> jsstring \<Rightarrow>
   js_error + (nat \<times> 'o provider_before list) list" where
  "createColVirtTextOptions_provider getDecoratorForHighlightId getDecoratorOptions
       line col colHighlights lineText =
     (let processedColHighlights = processColHighlights_provider colHighlights;
          virtTextCol = min (js_length lineText) col
      in fold (\<lambda>(frag, offset0) acc.
                 case acc of
                   Inl e \<Rightarrow> Inl e
                 | Inr hlId_options \<Rightarrow>
                     (case getDecoratorForHighlightId (pf_hlId frag) of
                        None \<Rightarrow> Inr hlId_options
                      | Some decorator \<Rightarrow>
                          (case pf_virtText frag of
                             JsString vt \<Rightarrow>
                               let shown = replace_first SPACE 8205 vt;
                                   conf = getDecoratorOptions decorator;
                                   width = js_length shown;
                                   offset = (if col > js_length lineText
                                             then offset0 + (col - js_length lineText)
                                             else offset0)
                               in Inr (map_push (pf_hlId frag)
                                         [\<lparr>pb_line = line, pb_col = virtTextCol, pb_style = conf,
                                           pb_contentText = shown, pb_marginCh = offset,
                                           pb_widthCh = width, pb_zIndex = 99 - int offset\<rparr>]
                                         hlId_options)
                           | _ \<Rightarrow> Inl TypeError)))
           (zip processedColHighlights [0..<length processedColHighlights]) (Inr []))"

text \<open>
  \<open>refreshDecorations\<close>. What \<open>getDecorations\<close> returns for the viewport is an
  argument; the two loops collect it by decorator and give every decorator of the
  previous refresh that is missing now an empty list. The result is the new set
  \<open>prevDecorators\<close> and the calls of \<open>editor.setDecorations\<close>, in order. Without an
  editor or a viewport nothing happens.
\<close>

definition mergeDecorations ::
  "('d \<times> 'o list) list \<Rightarrow> ('d \<times> 'o list) list \<Rightarrow> ('d \<times> 'o list) list" where
  "mergeDecorations ds m = fold (\<lambda>(decorator, opts) m. map_push decorator opts m) ds m"

definition clearUnused ::
  "'d set \<Rightarrow> 'd list \<Rightarrow> ('d \<times> 'o list) list \<Rightarrow> ('d \<times> 'o list) list" where
  "clearUnused used prev m =
     fold (\<lambda>decorator m. if decorator \<notin> used then map_set decorator [] m else m) prev m"

definition refreshDecorations ::
  "bool \<Rightarrow> bool \<Rightarrow> ('d \<times> 'o list) list \<Rightarrow> 'd list \<Rightarrow> 'd list \<times> ('d \<times> 'o list) list" where
  "refreshDecorations hasEditor hasViewport viewportDecorations prevDecorators =
     (if \<not> hasEditor then (prevDecorators, [])
      else if \<not> hasViewport then (prevDecorators, [])
      else
        let decorations = mergeDecorations viewportDecorations [];
            currDecorators = map fst decorations
        in (currDecorators, clearUnused (set currDecorators) prevDecorators decorations))"

text \<open>
  The end of \<open>HighlightProvider.getGridHighlights\<close>, from \<open>const result = []\<close> on:
  \<open>hlId_options\<close> holds the options collected for this refresh by highlight id,
  \<open>prevHighlights\<close> the ids of the previous refresh of the grid, if there was one. The
  result is the list of decorators with their options and the ids kept for the next
  refresh.
\<close>

definition gridHighlightsResult ::
  "(nat \<Rightarrow> 'd option) \<Rightarrow> (nat \<times> 'o list) list \<Rightarrow> nat list option \<Rightarrow>
   ('d \<times> 'o list) list \<times> nat list" where
  "gridHighlightsResult getDecoratorForHighlightId hlId_options prevHighlights =
     (let result =
            concat (map (\<lambda>(hlId, options).
                      if options \<noteq> [] then
                        (case getDecoratorForHighlightId hlId of
                           None \<Rightarrow> [] | Some decorator \<Rightarrow> [(decorator, options)])
                      else []) hlId_options);
          cleared =
            (case prevHighlights of
               None \<Rightarrow> []
             | Some prev \<Rightarrow>
                 concat (map (\<lambda>id. if id \<notin> fst ` set hlId_options then
                                      (case getDecoratorForHighlightId id of
                                         None \<Rightarrow> [] | Some decorator \<Rightarrow> [(decorator, [])])
                                    else []) prev))
      in (result @ cleared, map fst hlId_options))"

section \<open>Text utilities for concrete runs\<close>

text \<open>
  Modelled from the spec: the width-measurement utilities (\<open>wcswidth\<close> of the library
  the sources import, and \<open>getWidth\<close>, \<open>isDouble\<close>, \<open>splitGraphemes\<close>,
  \<open>calculateEditorColFromVimScreenCol\<close> of the modules \<open>utils/text\<close> and
  \<open>utils/text_cells\<close>) are not among the sources. The specification asks for character
  width with double-width glyphs occupying two screen cells and one character column;
  \<open>wcwidth\<close> gives two cells to the East Asian wide blocks and one to every other
  code point.
\<close>

definition wcwidth :: "int \<Rightarrow> nat" where
  "wcwidth c =
     (if (4352 \<le> c \<and> c \<le> 4447) \<or> (11904 \<le> c \<and> c \<le> 42191)
         \<or> (44032 \<le> c \<and> c \<le> 55203) \<or> (63744 \<le> c \<and> c \<le> 64255)
         \<or> (65280 \<le> c \<and> c \<le> 65376) \<or> (127744 \<le> c \<and> c \<le> 128591)
         \<or> (131072 \<le> c \<and> c \<le> 262141)
      then 2 else 1)"

definition wcswidth :: "jsstring \<Rightarrow> nat" where
  "wcswidth s = sum_list (map wcwidth s)"

text \<open>
  Modelled from the spec: \<open>getWidth\<close> and \<open>isDouble\<close> of \<open>utils/text_cells\<close>, written as
  the older \<open>HighlightProvider\<close> defines them for itself:
  \<open>wcswidth(text.replace(/\t/g, " ".repeat(tabSize)))\<close> and \<open>wcswidth(c) === 2\<close>.
\<close>

definition getWidth0 :: "jsstring \<Rightarrow> nat \<Rightarrow> nat" where
  "getWidth0 txt tabSize =
     wcswidth (concat (map (\<lambda>c. if c = 9 then replicate tabSize SPACE else [c]) txt))"

definition isDouble0 :: "jsstring \<Rightarrow> bool" where
  "isDouble0 c = (wcswidth c = 2)"

text \<open>
  Modelled from the spec: \<open>calculateEditorColFromVimScreenCol\<close> of \<open>utils/text\<close>, the
  conversion of a screen column into a character column of section 4.1, step 2:
  characters are passed, a tab reaching to the next multiple of the tab size and a
  double-width glyph taking two cells, until the screen column is reached.
\<close>

fun editorColWalk :: "jsstring \<Rightarrow> nat \<Rightarrow> nat \<Rightarrow> nat \<Rightarrow> nat \<Rightarrow> nat" where
  "editorColWalk [] screenCol tabSize currentCharIdx currentVimCol = currentCharIdx"
| "editorColWalk (c # cs) screenCol tabSize currentCharIdx currentVimCol =
     (if currentVimCol < screenCol
      then editorColWalk cs screenCol tabSize (Suc currentCharIdx)
             (currentVimCol + (if c = 9 then tabSize - currentVimCol mod tabSize else wcwidth c))
      else currentCharIdx)"

text \<open>
  Modelled from the spec: \<open>splitGraphemes\<close> of \<open>utils/text\<close>, for text without combining
  marks, where every code point is a grapheme of its own.
\<close>

definition textUtils0 :: text_utils where
  "textUtils0 =
     \<lparr>splitGraphemes = map (\<lambda>c. [c]),
      getWidth = getWidth0,
      isDouble = isDouble0,
      calculateEditorColFromVimScreenCol =
        (\<lambda>line screenCol tabSize. editorColWalk line screenCol tabSize 0 0)\<rparr>"

section \<open>Notions the claims are stated with\<close>

text \<open>
  The number of maximal runs in a list of columns with their ids, in ascending column
  order: a column continues the run of the column before it when it is adjacent to it
  and has the same id, and starts a new run otherwise.
\<close>

fun count_runs :: "(nat \<times> nat) list \<Rightarrow> nat" where
  "count_runs [] = 0"
| "count_runs [x] = 1"
| "count_runs (x # y # zs) =
     (if fst y = Suc (fst x) \<and> snd y = snd x then 0 else 1) + count_runs (y # zs)"

definition is_normal :: "highlight_range \<Rightarrow> bool" where
  "is_normal r = (case r of NormalRange _ \<Rightarrow> True | VirtualRange _ \<Rightarrow> False)"

text \<open>A column that holds a single real entry: one entry, without virtual text.\<close>

definition single_real :: "highlight list \<Rightarrow> bool" where
  "single_real hls = (case hls of [h] \<Rightarrow> virtText h = None | _ \<Rightarrow> False)"

definition col_ids :: "(nat \<times> highlight list) list \<Rightarrow> (nat \<times> nat) list" where
  "col_ids es = map (\<lambda>(c, hls). (c, hlId (hd hls))) es"

text \<open>The invariant of claim C2 for a row and for a grid.\<close>

definition row_pruned :: "grid_row \<Rightarrow> bool" where
  "row_pruned gridRow =
     list_all (\<lambda>(c, hls). hls \<noteq> [] \<and> list_ex (\<lambda>d. hlId d \<noteq> 0) hls) (arr_entries gridRow)"

definition grid_pruned :: "grid \<Rightarrow> bool" where
  "grid_pruned grid = list_all (\<lambda>(r, gridRow). row_pruned gridRow) (arr_entries grid)"

text \<open>
  What a result of \<open>createColVirtTextOptions\<close> shows: the texts of the overlays it
  holds for a highlight id, in the order they were pushed, and the number of overlays
  it holds in all.
\<close>

definition overlayTexts :: "nat \<Rightarrow> (nat \<times> 'o decoration_options list) list \<Rightarrow> jsstring list" where
  "overlayTexts k m =
     (case map_of m k of
        None \<Rightarrow> []
      | Some os \<Rightarrow> concat (map (\<lambda>opt. case opt of BeforeOptions b \<Rightarrow> [contentText b]
                                                | RangeOptions _ _ _ _ \<Rightarrow> []) os))"

definition overlayCount :: "('k \<times> 'v list) list \<Rightarrow> nat" where
  "overlayCount m = length (concat (map snd m))"

definition providerTexts :: "nat \<Rightarrow> (nat \<times> 'o provider_before list) list \<Rightarrow> jsstring list" where
  "providerTexts k m = (case map_of m k of None \<Rightarrow> [] | Some os \<Rightarrow> map pb_contentText os)"

definition fragmentText :: "provider_fragment \<Rightarrow> jsstring" where
  "fragmentText f = (case pf_virtText f of JsString s \<Rightarrow> s | _ \<Rightarrow> [])"

section \<open>Auxiliary notions of the proofs\<close>

text \<open>
  For the per-line builder: the number of normal ranges collected, and what holds of
  them after a real column \<open>c\<close> with id \<open>h\<close>: no range ends beyond \<open>c + 1\<close>, and one
  that ends there belongs to \<open>h\<close>, which has one.
\<close>

definition total_normals :: "(nat \<times> normal_range list) list \<Rightarrow> nat" where
  "total_normals nh = length (concat (map snd nh))"

definition ranges_inv :: "(nat \<times> normal_range list) list \<Rightarrow> nat \<Rightarrow> nat \<Rightarrow> bool" where
  "ranges_inv nh c h \<longleftrightarrow>
     (\<forall>(k, rs) \<in> set nh. \<forall>r \<in> set rs. endCol r \<le> c + 1 \<and> (endCol r = c + 1 \<longrightarrow> k = h)) \<and>
     (\<exists>rs. map_of nh h = Some rs \<and> (\<exists>r \<in> set rs. endCol r = c + 1))"

section \<open>Concrete states and events\<close>

text \<open>A row with three runs of real entries: columns 0 and 1, column 3, column 4.\<close>

definition row_three_runs :: grid_row where
  "row_three_runs =
     [Some [\<lparr>text = [97], hlId = 1, virtText = None\<rparr>],
      Some [\<lparr>text = [98], hlId = 1, virtText = None\<rparr>],
      None,
      Some [\<lparr>text = [99], hlId = 1, virtText = None\<rparr>],
      Some [\<lparr>text = [100], hlId = 2, virtText = None\<rparr>]]"

text \<open>
  The line of the three characters \<open>a\<close>, U+732B (a double-width glyph) and \<open>b\<close>, that
  is the code points 97, 29483 and 98, drawn from screen column 0 with four cells,
  the third being the empty continuation cell of the double-width glyph.
\<close>

definition ev_cat4 :: highlight_cells_event where
  "ev_cat4 = \<lparr>ev_row = 0, ev_vimCol = 0,
     ev_validCells = [\<lparr>text = [97], hlId = 1\<rparr>, \<lparr>text = [29483], hlId = 2\<rparr>,
                      \<lparr>text = [], hlId = 2\<rparr>, \<lparr>text = [98], hlId = 3\<rparr>],
     ev_lineText = [97, 29483, 98], ev_tabSize = 4\<rparr>"

text \<open>
  The line \<open>"\tx"\<close> with tab size 4, drawn from screen column 2, inside the tab: two
  spaces and \<open>x\<close> with id 0, two spaces with id 5, and no cell at all.
\<close>

definition ev_midtab0 :: highlight_cells_event where
  "ev_midtab0 = \<lparr>ev_row = 0, ev_vimCol = 2,
     ev_validCells = [\<lparr>text = [32], hlId = 0\<rparr>, \<lparr>text = [32], hlId = 0\<rparr>,
                      \<lparr>text = [120], hlId = 0\<rparr>],
     ev_lineText = [9, 120], ev_tabSize = 4\<rparr>"

definition ev_midtab5 :: highlight_cells_event where
  "ev_midtab5 = \<lparr>ev_row = 0, ev_vimCol = 2,
     ev_validCells = [\<lparr>text = [32], hlId = 5\<rparr>, \<lparr>text = [32], hlId = 5\<rparr>],
     ev_lineText = [9, 120], ev_tabSize = 4\<rparr>"

definition ev_midtab_nocells :: highlight_cells_event where
  "ev_midtab_nocells = \<lparr>ev_row = 0, ev_vimCol = 2, ev_validCells = [],
     ev_lineText = [9, 120], ev_tabSize = 4\<rparr>"

text \<open>The same line with the four cells of the tab (id 7) and \<open>x\<close> (id 6) stored.\<close>

definition grid_tab :: grid where
  "grid_tab =
     [Some [Some [\<lparr>text = [32], hlId = 7, virtText = Some [32]\<rparr>,
                  \<lparr>text = [32], hlId = 7, virtText = Some [32]\<rparr>,
                  \<lparr>text = [32], hlId = 7, virtText = Some [32]\<rparr>,
                  \<lparr>text = [32], hlId = 7, virtText = Some [32]\<rparr>],
            Some [\<lparr>text = [120], hlId = 6, virtText = None\<rparr>]]]"

text \<open>That grid with the second half of the tab redrawn with id 5.\<close>

definition grid_tab_redrawn :: grid where
  "grid_tab_redrawn =
     [Some [Some [\<lparr>text = [32], hlId = 7, virtText = Some [32]\<rparr>,
                  \<lparr>text = [32], hlId = 7, virtText = Some [32]\<rparr>,
                  \<lparr>text = [32], hlId = 5, virtText = Some [32]\<rparr>,
                  \<lparr>text = [32], hlId = 5, virtText = Some [32]\<rparr>],
            Some [\<lparr>text = [120], hlId = 6, virtText = None\<rparr>]]]"

text \<open>The line \<open>a\<close> drawn with id 1, and the grid that holds exactly that.\<close>

definition ev_a1 :: highlight_cells_event where
  "ev_a1 = \<lparr>ev_row = 0, ev_vimCol = 0, ev_validCells = [\<lparr>text = [97], hlId = 1\<rparr>],
     ev_lineText = [97], ev_tabSize = 4\<rparr>"

definition grid_a1 :: grid where
  "grid_a1 = [Some [Some [\<lparr>text = [97], hlId = 1, virtText = None\<rparr>]]]"

section \<open>Facts about arrays with holes\<close>

lemma length_arr_delete [simp]: "length (arr_delete xs i) = length xs"
  by (simp add: arr_delete_def)

lemma arr_get_delete [simp]:
  "arr_get (arr_delete xs i) j = (if j = i then None else arr_get xs j)"
  by (auto simp: arr_get_def arr_delete_def)

lemma length_arr_set [simp]: "length (arr_set xs i v) = max (length xs) (Suc i)"
  by (auto simp: arr_set_def)

lemma arr_get_set [simp]:
  "arr_get (arr_set xs i v) j = (if j = i then Some v else arr_get xs j)"
  by (auto simp: arr_get_def arr_set_def nth_append)

lemma arr_get_beyond: "length xs \<le> j \<Longrightarrow> arr_get xs j = None"
  by (simp add: arr_get_def)

lemma arr_ext:
  "length xs = length ys \<Longrightarrow> (\<And>j. arr_get xs j = arr_get ys j) \<Longrightarrow> xs = ys"
proof (rule nth_equalityI)
  fix i
  assume len: "length xs = length ys"
    and ext: "\<And>j. arr_get xs j = arr_get ys j"
    and i: "i < length xs"
  from ext [of i] i len show "xs ! i = ys ! i"
    by (simp add: arr_get_def)
qed

lemma fold_filter:
  "fold f (filter P xs) s = fold (\<lambda>x s. if P x then f x s else s) xs s"
  by (induction xs arbitrary: s) auto

section \<open>Shifting rows up\<close>

lemma clip_length [simp]:
  "length (fold (\<lambda>i g. arr_delete g (from + i)) js g) = length g"
  by (induction js arbitrary: g) auto

lemma clip_get:
  "arr_get (fold (\<lambda>i g. arr_delete g (from + i)) [0..<n] g) j =
     (if from \<le> j \<and> j < from + n then None else arr_get g j)"
  by (induction n) auto

lemma moveRow_length:
  "idx < length g \<Longrightarrow> tgt < int (length g) \<Longrightarrow> length (moveRow g idx tgt) = length g"
  by (auto simp: moveRow_def split: option.splits)

lemma moveRow_get:
  "0 \<le> tgt \<Longrightarrow> nat tgt \<noteq> idx \<Longrightarrow>
   arr_get (moveRow g idx tgt) j =
     (if arr_get g idx = None then arr_get g j
      else if j = idx then None
      else if j = nat tgt then arr_get g idx else arr_get g j)"
  by (auto simp: moveRow_def split: option.splits)

text \<open>
  The state of the relocation loop once every index below \<open>k\<close> has been visited: rows
  below \<open>from\<close> are untouched, the rows that were at \<open>from + n\<close> and above have arrived
  \<open>n\<close> places lower as far as the loop has got, and the places they left are holes.
\<close>

lemma shift_up_inv:
  assumes n: "0 < n" and k: "k \<le> length g1"
    and clipped: "\<And>j. from \<le> j \<Longrightarrow> j < from + n \<Longrightarrow> arr_get g1 j = None"
  defines "step \<equiv> (\<lambda>idx g. if g1 ! idx \<noteq> None
                       then (if idx \<le> from then g else moveRow g idx (int idx - int n))
                       else g)"
  shows "length (fold step [0..<k] g1) = length g1 \<and>
         (\<forall>j. arr_get (fold step [0..<k] g1) j =
            (if j < from then arr_get g1 j
             else if j + n < k then arr_get g1 (j + n)
             else if j < k then None else arr_get g1 j))"
  using k
proof (induction k)
  case 0
  then show ?case by simp
next
  case (Suc k)
  let ?g = "fold step [0..<k] g1"
  from Suc have IH: "length ?g = length g1"
    "\<And>j. arr_get ?g j = (if j < from then arr_get g1 j
             else if j + n < k then arr_get g1 (j + n)
             else if j < k then None else arr_get g1 j)"
    and kl: "k < length g1" by auto
  have cur: "arr_get ?g k = arr_get g1 k" using IH(2)[of k] by auto
  have g1k: "arr_get g1 k = g1 ! k" using kl by (simp add: arr_get_def)
  show ?case
  proof (cases "g1 ! k \<noteq> None \<and> \<not> k \<le> from")
    case False
    then have st: "fold step [0..<Suc k] g1 = ?g" by (auto simp: step_def)
    have "arr_get g1 k = None \<or> k \<le> from" using False g1k by auto
    then show ?thesis unfolding st using IH clipped n
      by (auto simp: less_Suc_eq)
  next
    case True
    then have st: "fold step [0..<Suc k] g1 = moveRow ?g k (int k - int n)"
      by (auto simp: step_def)
    from True g1k clipped[of k] have kn: "from + n \<le> k"
      by (cases "k < from + n") auto
    then have tg: "0 \<le> int k - int n" "nat (int k - int n) = k - n" "k - n \<noteq> k"
      using n by auto
    have len: "length (moveRow ?g k (int k - int n)) = length g1"
      using moveRow_length[of k ?g "int k - int n"] kl IH(1) by simp
    have "\<And>j. arr_get (moveRow ?g k (int k - int n)) j =
            (if j < from then arr_get g1 j
             else if j + n < Suc k then arr_get g1 (j + n)
             else if j < Suc k then None else arr_get g1 j)"
      using True g1k kn n cur
      by (subst moveRow_get) (use tg in \<open>auto simp: IH(2) less_Suc_eq\<close>)
    then show ?thesis unfolding st using len by simp
  qed
qed

lemma shift_up_both:
  fixes g :: "'a sparse"
  assumes "0 < by"
  shows "length (shiftHighlights by from g) = length g \<and>
         arr_get (shiftHighlights by from g) j =
           (if j < from then arr_get g j else arr_get g (j + nat by))"
proof -
  define n where "n = nat by"
  define g1 where "g1 = fold (\<lambda>i g. arr_delete g (from + i)) [0..<n] g"
  define step :: "nat \<Rightarrow> 'a sparse \<Rightarrow> 'a sparse"
    where "step = (\<lambda>idx g. if g1 ! idx \<noteq> None
                       then (if idx \<le> from then g else moveRow g idx (int idx - int n))
                       else g)"
  have n: "0 < n" "int n = by" using assms by (auto simp: n_def)
  have g1: "\<And>j. arr_get g1 j = (if from \<le> j \<and> j < from + n then None else arr_get g j)"
    and len1: "length g1 = length g"
    by (simp_all add: g1_def clip_get)
  have sh: "shiftHighlights by from g = fold step [0..<length g1] g1"
  proof -
    have byn: "int (nat by) = by" using assms by simp
    show ?thesis
      unfolding step_def g1_def n_def byn using assms
      by (simp add: shiftHighlights_def Let_def arr_indices_def fold_filter)
  qed
  have inv: "length (fold step [0..<length g1] g1) = length g1 \<and>
         (\<forall>j. arr_get (fold step [0..<length g1] g1) j =
            (if j < from then arr_get g1 j
             else if j + n < length g1 then arr_get g1 (j + n)
             else if j < length g1 then None else arr_get g1 j))"
    using shift_up_inv[of n "length g1" g1 "from"] n(1) g1
    by (simp add: step_def)
  show ?thesis
    unfolding sh using inv g1 len1
    by (auto simp: arr_get_beyond simp flip: n_def)
qed

text \<open>
  Claim C9. Shifting by zero is the identity: with \<open>by = 0\<close> neither the branch for a
  positive nor the branch for a negative amount runs, so the grid is returned as it
  was, for every grid and every \<open>from\<close>; the per-grid variant leaves the whole table of
  grids unchanged.
\<close>

theorem shift_by_zero_identity:
  "shiftHighlights 0 from grid = grid \<and>
   shiftGridHighlights highlights gridId 0 from = highlights"
  by (auto simp: shiftHighlights_def shiftGridHighlights_def split: option.splits)

text \<open>
  Claim C5. For a positive amount \<open>by\<close>, after \<open>shiftHighlights by from\<close> the rows
  \<open>from, ..., from + by - 1\<close> are gone and every row that was stored at an index \<open>i\<close>
  beyond them is found at \<open>i - by\<close> and nowhere else: reading index \<open>j \<ge> from\<close> gives
  what index \<open>j + by\<close> held before. Rows below \<open>from\<close> stay where they are, and the
  array keeps its length.
\<close>

theorem shift_up_readdresses:
  "0 < by \<Longrightarrow>
   length (shiftHighlights by from grid) = length grid \<and>
   arr_get (shiftHighlights by from grid) j =
     (if j < from then arr_get grid j else arr_get grid (j + nat by))"
  by (rule shift_up_both)

text \<open>
  The scroll example of the specification: rows 0 to 3 are stored,
  \<open>shift(by = 2, from = 0)\<close> leaves the former rows 2 and 3 at the indices 0 and 1 and no
  other row.
\<close>

theorem shift_up_readdresses_witness:
  "(0::int) < 2 \<and>
   shiftHighlights 2 0
     [Some [Some [\<lparr>text = [97], hlId = 1, virtText = None\<rparr>]],
      Some [Some [\<lparr>text = [98], hlId = 2, virtText = None\<rparr>]],
      Some [Some [\<lparr>text = [99], hlId = 3, virtText = None\<rparr>]],
      Some [Some [\<lparr>text = [100], hlId = 4, virtText = None\<rparr>]]]
   = [Some [Some [\<lparr>text = [99], hlId = 3, virtText = None\<rparr>]],
      Some [Some [\<lparr>text = [100], hlId = 4, virtText = None\<rparr>]],
      None, None]"
proof -
  let ?g = "[Some [Some [\<lparr>text = [97], hlId = 1, virtText = None\<rparr>]],
      Some [Some [\<lparr>text = [98], hlId = 2, virtText = None\<rparr>]],
      Some [Some [\<lparr>text = [99], hlId = 3, virtText = None\<rparr>]],
      Some [Some [\<lparr>text = [100], hlId = 4, virtText = None\<rparr>]]]"
  have pos: "(0::int) < 2" by simp
  have len: "length (shiftHighlights 2 0 ?g) = length ?g"
    using shift_up_readdresses [OF pos, of 0 ?g 0] by simp
  have get: "arr_get (shiftHighlights 2 0 ?g) j = arr_get ?g (j + 2)" for j
    using shift_up_readdresses [OF pos, of 0 ?g j] by simp
  show ?thesis
  proof (intro conjI pos arr_ext)
    show "length (shiftHighlights 2 0 ?g) = length [Some [Some [\<lparr>text = [99], hlId = 3, virtText = None\<rparr>]],
      Some [Some [\<lparr>text = [100], hlId = 4, virtText = None\<rparr>]],
      None, None]"
      using len by simp
  next
    fix j
    show "arr_get (shiftHighlights 2 0 ?g) j = arr_get [Some [Some [\<lparr>text = [99], hlId = 3, virtText = None\<rparr>]],
      Some [Some [\<lparr>text = [100], hlId = 4, virtText = None\<rparr>]],
      None, None] j"
      unfolding get by (simp add: arr_get_def nth_Cons split: nat.splits)
  qed
qed

section \<open>One normal range per run\<close>

lemma buildCols_runs:
  assumes "\<forall>(c, hls) \<in> set es. single_real hls"
  shows "\<exists>st'. buildCols line es st = Inr st' \<and>
           length (filter is_normal (closeRange line st')) =
             length (filter is_normal (res st)) +
             (case currHighlight st of
                None \<Rightarrow> count_runs (col_ids es)
              | Some h \<Rightarrow> count_runs ((currEndCol st, hlId h) # col_ids es))"
  using assms
proof (induction es arbitrary: st)
  case Nil
  then show ?case by (auto simp: closeRange_def col_ids_def is_normal_def split: option.splits)
next
  case (Cons e es)
  obtain c hls where e: "e = (c, hls)" by (cases e)
  from Cons.prems e obtain h where h: "hls = [h]" "virtText h = None"
    by (auto simp: single_real_def split: list.splits)
  from Cons.prems have rest: "\<forall>(c, hls) \<in> set es. single_real hls" by simp
  show ?case
  proof (cases "map_option hlId (currHighlight st) = Some (hlId h) \<and> int (currEndCol st) = int c - 1")
    case True
    then obtain h0 where h0: "currHighlight st = Some h0" "hlId h0 = hlId h" "c = Suc (currEndCol st)"
      by (cases "currHighlight st") auto
    have step: "buildCol line c hls st = Inr (st\<lparr>currEndCol := c\<rparr>)"
      using True h by (simp add: buildCol_def truthy_def)
    from Cons.IH[OF rest, of "st\<lparr>currEndCol := c\<rparr>"] show ?thesis
      using step e h h0 by (auto simp: col_ids_def)
  next
    case False
    let ?st = "\<lparr>res = closeRange line st, currHighlight = Some h, currStartCol = c, currEndCol = c\<rparr>"
    have step: "buildCol line c hls st = Inr ?st"
      using False h by (auto simp: buildCol_def truthy_def)
    have brk: "\<And>h0. currHighlight st = Some h0 \<Longrightarrow> \<not> (c = Suc (currEndCol st) \<and> hlId h = hlId h0)"
      using False by auto
    from Cons.IH[OF rest, of ?st] show ?thesis
      using step e h brk
      by (auto simp: col_ids_def closeRange_def is_normal_def split: option.splits)
  qed
qed

lemma total_map_set_new:
  "map_of nh k = None \<Longrightarrow> total_normals (map_set k v nh) = total_normals nh + length v"
  by (induction nh) (auto simp: total_normals_def split: if_splits)

lemma total_map_set_old:
  "map_of nh k = Some old \<Longrightarrow>
   total_normals (map_set k v nh) + length old = total_normals nh + length v"
  by (induction nh) (auto simp: total_normals_def split: if_splits)

lemma set_map_set: "set (map_set k v nh) \<subseteq> insert (k, v) (set nh)"
  by (induction nh) auto

lemma map_of_map_set [simp]: "map_of (map_set k v nh) k' = (if k' = k then Some v else map_of nh k')"
  by (induction nh) auto

lemma findLastIndex_None: "findLastIndex P xs = None \<longleftrightarrow> (\<forall>x \<in> set xs. \<not> P x)"
proof -
  have "findLastIndex P xs = None \<longleftrightarrow> filter (\<lambda>i. P (xs ! i)) (rev [0..<length xs]) = []"
    by (simp add: findLastIndex_def split: list.splits)
  also have "\<dots> \<longleftrightarrow> (\<forall>i < length xs. \<not> P (xs ! i))"
    by (auto simp: filter_empty_conv)
  also have "\<dots> \<longleftrightarrow> (\<forall>x \<in> set xs. \<not> P x)"
    by (metis in_set_conv_nth)
  finally show ?thesis .
qed

lemma findLastIndex_Some: "findLastIndex P xs = Some i \<Longrightarrow> i < length xs \<and> P (xs ! i)"
proof -
  assume "findLastIndex P xs = Some i"
  then obtain rest where "filter (\<lambda>i. P (xs ! i)) (rev [0..<length xs]) = i # rest"
    by (auto simp: findLastIndex_def split: list.splits)
  then have "i \<in> set (filter (\<lambda>i. P (xs ! i)) (rev [0..<length xs]))" by simp
  then show ?thesis by auto
qed

lemma lineCol_start:
  assumes "hls = [hl]" "virtText hl = None"
    and "\<And>rs. map_of (normalHighlights st) (hlId hl) = Some rs \<Longrightarrow> \<forall>r \<in> set rs. endCol r \<noteq> c"
    and "\<forall>(k, rs) \<in> set (normalHighlights st). \<forall>r \<in> set rs. endCol r \<le> c"
  shows "total_normals (normalHighlights (lineCol line (c, hls) st)) =
           Suc (total_normals (normalHighlights st)) \<and>
         ranges_inv (normalHighlights (lineCol line (c, hls) st)) c (hlId hl)"
proof -
  define ex where "ex = (case map_of (normalHighlights st) (hlId hl) of None \<Rightarrow> [] | Some rs \<Rightarrow> rs)"
  define new where "new = \<lparr>nr_hlId = hlId hl, nr_line = line, startCol = c, endCol = c + 1\<rparr>"
  have new_end: "endCol new = c + 1" by (simp add: new_def)
  have none: "findLastIndex (\<lambda>r. endCol r = c) ex = None"
  proof (cases "map_of (normalHighlights st) (hlId hl)")
    case None
    then show ?thesis by (simp add: findLastIndex_None ex_def)
  next
    case (Some rs)
    with assms(3)[OF Some] show ?thesis by (simp add: findLastIndex_None ex_def)
  qed
  have nh: "normalHighlights (lineCol line (c, hls) st) =
              map_set (hlId hl) (ex @ [new]) (normalHighlights st)"
    using assms(1,2) none by (simp add: lineCol_def truthy_def Let_def new_def flip: ex_def)
  have tot: "total_normals (map_set (hlId hl) (ex @ [new]) (normalHighlights st)) =
               Suc (total_normals (normalHighlights st))"
  proof (cases "map_of (normalHighlights st) (hlId hl)")
    case None
    then show ?thesis by (simp add: total_map_set_new ex_def)
  next
    case (Some old)
    then show ?thesis using total_map_set_old[OF Some, of "old @ [new]"] by (simp add: ex_def)
  qed
  have old_in: "endCol r \<le> c" if "r \<in> set ex" for r
  proof (cases "map_of (normalHighlights st) (hlId hl)")
    case None
    with that show ?thesis by (simp add: ex_def)
  next
    case (Some rs)
    then have "(hlId hl, rs) \<in> set (normalHighlights st)" by (rule map_of_SomeD)
    with assms(4) that Some show ?thesis by (force simp: ex_def)
  qed
  have inv: "ranges_inv (map_set (hlId hl) (ex @ [new]) (normalHighlights st)) c (hlId hl)"
    unfolding ranges_inv_def
  proof (intro conjI)
    show "\<forall>(k, rs) \<in> set (map_set (hlId hl) (ex @ [new]) (normalHighlights st)).
            \<forall>r \<in> set rs. endCol r \<le> c + 1 \<and> (endCol r = c + 1 \<longrightarrow> k = hlId hl)"
    proof (clarify)
      fix k rs r
      assume "(k, rs) \<in> set (map_set (hlId hl) (ex @ [new]) (normalHighlights st))" "r \<in> set rs"
      then have r: "r \<in> set rs"
        and "(k, rs) = (hlId hl, ex @ [new]) \<or> (k, rs) \<in> set (normalHighlights st)"
        using set_map_set[of "hlId hl" "ex @ [new]" "normalHighlights st"] by blast+
      then show "endCol r \<le> c + 1 \<and> (endCol r = c + 1 \<longrightarrow> k = hlId hl)"
      proof (elim disjE)
        assume "(k, rs) = (hlId hl, ex @ [new])"
        with r have "k = hlId hl" "r \<in> set ex \<or> r = new" by auto
        then show ?thesis using old_in[of r] new_end by auto
      next
        assume "(k, rs) \<in> set (normalHighlights st)"
        with assms(4) r have "endCol r \<le> c" by auto
        then show ?thesis by simp
      qed
    qed
  next
    show "\<exists>rs. map_of (map_set (hlId hl) (ex @ [new]) (normalHighlights st)) (hlId hl) = Some rs \<and>
            (\<exists>r \<in> set rs. endCol r = c + 1)"
      using new_end by simp
  qed
  show ?thesis unfolding nh using tot inv by simp
qed

lemma lineCol_extend:
  assumes "hls = [hl]" "virtText hl = None"
    and inv: "ranges_inv (normalHighlights st) c (hlId hl)"
  shows "total_normals (normalHighlights (lineCol line (Suc c, hls) st)) =
           total_normals (normalHighlights st) \<and>
         ranges_inv (normalHighlights (lineCol line (Suc c, hls) st)) (Suc c) (hlId hl)"
proof -
  from inv obtain rs where rs: "map_of (normalHighlights st) (hlId hl) = Some rs"
    and ex: "\<exists>r \<in> set rs. endCol r = Suc c"
    by (auto simp: ranges_inv_def)
  from ex obtain i where i: "findLastIndex (\<lambda>r. endCol r = Suc c) rs = Some i"
    by (cases "findLastIndex (\<lambda>r. endCol r = Suc c) rs") (auto simp: findLastIndex_None)
  then have il: "i < length rs" using findLastIndex_Some by fastforce
  let ?rs' = "rs[i := (rs ! i)\<lparr>endCol := Suc c + 1\<rparr>]"
  have nh: "normalHighlights (lineCol line (Suc c, hls) st) =
              map_set (hlId hl) ?rs' (normalHighlights st)"
    using assms(1,2) rs i by (simp add: lineCol_def truthy_def Let_def)
  have tot: "total_normals (map_set (hlId hl) ?rs' (normalHighlights st)) =
               total_normals (normalHighlights st)"
    using total_map_set_old[OF rs, of ?rs'] by simp
  have all: "\<And>k rs' r. (k, rs') \<in> set (normalHighlights st) \<Longrightarrow> r \<in> set rs' \<Longrightarrow> endCol r \<le> c + 1"
    using inv by (auto simp: ranges_inv_def)
  have rs_in: "(hlId hl, rs) \<in> set (normalHighlights st)" using rs by (rule map_of_SomeD)
  have new_in: "\<And>r. r \<in> set ?rs' \<Longrightarrow> endCol r \<le> Suc c + 1"
  proof -
    fix r assume "r \<in> set ?rs'"
    then have "r = (rs ! i)\<lparr>endCol := Suc c + 1\<rparr> \<or> r \<in> set rs"
      using set_update_subset_insert[of rs i] by auto
    then show "endCol r \<le> Suc c + 1" using all[OF rs_in] by force
  qed
  have inv': "ranges_inv (map_set (hlId hl) ?rs' (normalHighlights st)) (Suc c) (hlId hl)"
    unfolding ranges_inv_def
  proof (intro conjI)
    show "\<forall>(k, rs) \<in> set (map_set (hlId hl) ?rs' (normalHighlights st)).
            \<forall>r \<in> set rs. endCol r \<le> Suc c + 1 \<and> (endCol r = Suc c + 1 \<longrightarrow> k = hlId hl)"
    proof (clarify)
      fix k rs0 r
      assume "(k, rs0) \<in> set (map_set (hlId hl) ?rs' (normalHighlights st))" "r \<in> set rs0"
      then have r: "r \<in> set rs0"
        and "(k, rs0) = (hlId hl, ?rs') \<or> (k, rs0) \<in> set (normalHighlights st)"
        using set_map_set[of "hlId hl" ?rs' "normalHighlights st"] by blast+
      then show "endCol r \<le> Suc c + 1 \<and> (endCol r = Suc c + 1 \<longrightarrow> k = hlId hl)"
      proof (elim disjE)
        assume "(k, rs0) = (hlId hl, ?rs')"
        with r have "k = hlId hl" "r \<in> set ?rs'" by auto
        then show ?thesis using new_in by auto
      next
        assume "(k, rs0) \<in> set (normalHighlights st)"
        with all r have "endCol r \<le> c + 1" by blast
        then show ?thesis by simp
      qed
    qed
  next
    have "(rs ! i)\<lparr>endCol := Suc c + 1\<rparr> \<in> set ?rs'" using il by (simp add: set_update_memI)
    then show "\<exists>rs. map_of (map_set (hlId hl) ?rs' (normalHighlights st)) (hlId hl) = Some rs \<and>
            (\<exists>r \<in> set rs. endCol r = Suc c + 1)"
      by force
  qed
  show ?thesis unfolding nh using tot inv' by simp
qed

lemma lineCols_runs_from:
  assumes "\<forall>(c, hls) \<in> set es. single_real hls"
    and "sorted_wrt (<) (map fst es)"
    and "\<forall>c' \<in> set (map fst es). c < c'"
    and "ranges_inv (normalHighlights st) c h"
  shows "Suc (total_normals (normalHighlights (fold (lineCol line) es st))) =
           total_normals (normalHighlights st) + count_runs ((c, h) # col_ids es)"
  using assms
proof (induction es arbitrary: st c h)
  case Nil
  then show ?case by (simp add: col_ids_def)
next
  case (Cons e es)
  obtain c' hls where e: "e = (c', hls)" by (cases e)
  from Cons.prems(1) e obtain hl where hl: "hls = [hl]" "virtText hl = None"
    by (auto simp: single_real_def split: list.splits)
  from Cons.prems e have rest: "\<forall>(c, hls) \<in> set es. single_real hls"
    "sorted_wrt (<) (map fst es)" "\<forall>c'' \<in> set (map fst es). c' < c''" and cc: "c < c'"
    by auto
  have ids: "col_ids (e # es) = (c', hlId hl) # col_ids es"
    using e hl by (simp add: col_ids_def)
  show ?case
  proof (cases "c' = Suc c \<and> hlId hl = h")
    case True
    with Cons.prems(4) have inv: "ranges_inv (normalHighlights st) c (hlId hl)" by simp
    from lineCol_extend[OF hl inv, of line] True
    have step: "total_normals (normalHighlights (lineCol line e st)) = total_normals (normalHighlights st)"
      "ranges_inv (normalHighlights (lineCol line e st)) c' (hlId hl)"
      using e by auto
    from Cons.IH[OF rest step(2)] step(1) True show ?thesis
      by (simp add: ids)
  next
    case False
    from Cons.prems(4) have all: "\<And>k rs r. (k, rs) \<in> set (normalHighlights st) \<Longrightarrow> r \<in> set rs \<Longrightarrow>
        endCol r \<le> c + 1 \<and> (endCol r = c + 1 \<longrightarrow> k = h)"
      by (auto simp: ranges_inv_def)
    have p3: "\<And>rs. map_of (normalHighlights st) (hlId hl) = Some rs \<Longrightarrow> \<forall>r \<in> set rs. endCol r \<noteq> c'"
    proof
      fix rs r assume "map_of (normalHighlights st) (hlId hl) = Some rs" "r \<in> set rs"
      then have "(hlId hl, rs) \<in> set (normalHighlights st)" "r \<in> set rs"
        by (auto dest: map_of_SomeD)
      from all[OF this] False cc show "endCol r \<noteq> c'" by auto
    qed
    have p4: "\<forall>(k, rs) \<in> set (normalHighlights st). \<forall>r \<in> set rs. endCol r \<le> c'"
      using all cc by fastforce
    from lineCol_start[OF hl p3 p4, of line]
    have step: "total_normals (normalHighlights (lineCol line e st)) = Suc (total_normals (normalHighlights st))"
      "ranges_inv (normalHighlights (lineCol line e st)) c' (hlId hl)"
      using e by auto
    from Cons.IH[OF rest step(2)] step(1) False show ?thesis
      by (auto simp: ids)
  qed
qed

lemma lineCols_runs:
  assumes "\<forall>(c, hls) \<in> set es. single_real hls"
    and "sorted_wrt (<) (map fst es)"
  shows "total_normals (normalHighlights
           (fold (lineCol line) es \<lparr>normalHighlights = [], virtualHighlights = []\<rparr>)) =
         count_runs (col_ids es)"
proof (cases es)
  case Nil
  then show ?thesis by (simp add: total_normals_def col_ids_def)
next
  case (Cons e rest)
  let ?st0 = "\<lparr>normalHighlights = [], virtualHighlights = []\<rparr>"
  obtain c hls where e: "e = (c, hls)" by (cases e)
  from assms(1) Cons e obtain hl where hl: "hls = [hl]" "virtText hl = None"
    by (auto simp: single_real_def split: list.splits)
  from assms Cons e have rest: "\<forall>(c, hls) \<in> set rest. single_real hls"
    "sorted_wrt (<) (map fst rest)" "\<forall>c' \<in> set (map fst rest). c < c'"
    by auto
  have step: "total_normals (normalHighlights (lineCol line e ?st0)) = Suc (total_normals (normalHighlights ?st0))"
      "ranges_inv (normalHighlights (lineCol line e ?st0)) c (hlId hl)"
    using lineCol_start[OF hl, of ?st0 c line] e by auto
  have ids: "col_ids (e # rest) = (c, hlId hl) # col_ids rest"
    using e hl by (simp add: col_ids_def)
  from lineCols_runs_from[OF rest step(2), of line] step(1) show ?thesis
    by (simp add: Cons ids total_normals_def)
qed

lemma normals_lineHighlightsToRanges:
  "length (filter is_normal (lineHighlightsToRanges line es)) =
     total_normals (normalHighlights
        (fold (lineCol line) es \<lparr>normalHighlights = [], virtualHighlights = []\<rparr>))"
  by (simp add: lineHighlightsToRanges_def Let_def total_normals_def is_normal_def filter_map o_def)

lemma sorted_arr_entries: "sorted_wrt (<) (map fst (arr_entries xs))"
proof -
  have "map fst (concat (map (\<lambda>i. case xs ! i of None \<Rightarrow> [] | Some v \<Rightarrow> [(i, v)]) js)) =
          filter (\<lambda>i. xs ! i \<noteq> None) js" for js
    by (induction js) (auto split: option.splits)
  then have "map fst (arr_entries xs) = filter (\<lambda>i. xs ! i \<noteq> None) [0..<length xs]"
    unfolding arr_entries_def by blast
  then show ?thesis by (simp add: sorted_wrt_filter)
qed

text \<open>
  Claim C3. For a row in which every stored column holds a single real entry, the
  range builder emits as many \<open>Normal\<close> ranges for the row as the stored columns form
  maximal runs of adjacent columns with one highlight id, whatever events built the
  row: \<open>buildHighlightRanges\<close> adds exactly that many normal ranges to its result
  for the row, and \<open>lineHighlightsToRanges\<close> returns exactly that many for the
  columns in ascending order.
\<close>

theorem range_builder_one_range_per_run:
  assumes "list_all (\<lambda>(c, hls). single_real hls) (arr_entries rowHighlights)"
  shows "(\<exists>rs. buildRow line rowHighlights res0 = Inr rs \<and>
              length (filter is_normal rs) =
                length (filter is_normal res0) + count_runs (col_ids (arr_entries rowHighlights)))
         \<and> length (filter is_normal (lineHighlightsToRanges line (arr_entries rowHighlights))) =
             count_runs (col_ids (arr_entries rowHighlights))"
proof -
  from assms have all: "\<forall>(c, hls) \<in> set (arr_entries rowHighlights). single_real hls"
    by (simp add: list_all_iff)
  let ?st0 = "\<lparr>res = res0, currHighlight = None, currStartCol = 0, currEndCol = 0\<rparr>"
  from buildCols_runs[OF all, of line ?st0]
  obtain st' where st': "buildCols line (arr_entries rowHighlights) ?st0 = Inr st'"
    "length (filter is_normal (closeRange line st')) =
       length (filter is_normal res0) + count_runs (col_ids (arr_entries rowHighlights))"
    by auto
  then have "buildRow line rowHighlights res0 = Inr (closeRange line st')"
    by (simp add: buildRow_def)
  with st'(2) have first: "\<exists>rs. buildRow line rowHighlights res0 = Inr rs \<and>
              length (filter is_normal rs) =
                length (filter is_normal res0) + count_runs (col_ids (arr_entries rowHighlights))"
    by blast
  have second: "length (filter is_normal (lineHighlightsToRanges line (arr_entries rowHighlights)))
      = count_runs (col_ids (arr_entries rowHighlights))"
    using lineCols_runs[OF all sorted_arr_entries, of line]
    by (simp add: normals_lineHighlightsToRanges)
  from first second show ?thesis by blast
qed

text \<open>
  A row with the columns 0 and 1 of id 1, a gap, column 3 of id 1 and column 4 of
  id 2 has three runs, and both builders emit three normal ranges.
\<close>

theorem range_builder_one_range_per_run_witness:
  "list_all (\<lambda>(c, hls). single_real hls) (arr_entries row_three_runs) \<and>
   count_runs (col_ids (arr_entries row_three_runs)) = 3 \<and>
   (\<exists>rs. buildRow 0 row_three_runs [] = Inr rs \<and> length (filter is_normal rs) = 3) \<and>
   length (filter is_normal (lineHighlightsToRanges 0 (arr_entries row_three_runs))) = 3"
proof -
  have h: "list_all (\<lambda>(c, hls). single_real hls) (arr_entries row_three_runs)"
    by code_simp
  have k: "count_runs (col_ids (arr_entries row_three_runs)) = 3"
    by code_simp
  from range_builder_one_range_per_run[OF h, of 0 "[]"] h k show ?thesis
    by simp
qed

section \<open>The cell walk: progress and termination\<close>

lemma cellBranch_mono:
  "cellBranch U lineChars tabSize cells cell idx currChar extraCols c = (hls, idx', c') \<Longrightarrow>
   idx \<le> idx' \<and> c \<le> c'"
  by (auto simp: cellBranch_def Let_def split: if_splits)

lemma walkCell_index: "idx \<le> cr_index (walkCell U lineChars filled tabSize cells cell idx c)"
  by (auto simp: walkCell_def Let_def split: prod.splits dest: cellBranch_mono)

lemma cellWalkFuel_enough:
  "length cells - pos < fuel \<Longrightarrow>
   cellWalkFuel fuel U lineChars filled tabSize cells pos c st =
     Some (cellWalk U lineChars filled tabSize cells pos c st)"
proof (induction fuel arbitrary: pos c st)
  case 0
  then show ?case by simp
next
  case (Suc fuel)
  show ?case
  proof (cases "nth_opt cells pos")
    case None
    then show ?thesis by (simp add: cellWalk.simps[of _ _ _ _ _ pos])
  next
    case (Some cell)
    let ?r = "walkCell U lineChars filled tabSize cells cell (Suc pos) c"
    from Some have "pos < length cells" by (auto simp: nth_opt_def split: if_splits)
    moreover have "Suc pos \<le> cr_index ?r" by (rule walkCell_index)
    ultimately have "length cells - cr_index ?r < fuel" using Suc.prems by arith
    from Suc.IH[OF this] Some show ?thesis
      by (simp add: Let_def cellWalk.simps[of _ _ _ _ _ pos])
  qed
qed

text \<open>
  Claim C10. The cell walk terminates on every input: the body of the loop leaves the
  cell iterator beyond the cell it started with (every branch consumes at least that
  cell), the iterator yields nothing once the cells are exhausted, and so a budget of
  one iteration more than the cells that remain always suffices: the loop with a
  budget returns, and returns what the loop returns.
\<close>

theorem cell_walk_terminates:
  "Suc pos \<le> cr_index (walkCell U lineChars filled tabSize cells cell (Suc pos) c) \<and>
   (length cells \<le> pos \<longrightarrow> cellWalk U lineChars filled tabSize cells pos c st = st) \<and>
   cellWalkFuel (Suc (length cells - pos) + extra) U lineChars filled tabSize cells pos c st =
     Some (cellWalk U lineChars filled tabSize cells pos c st)"
proof (intro conjI impI)
  show "Suc pos \<le> cr_index (walkCell U lineChars filled tabSize cells cell (Suc pos) c)"
    by (rule walkCell_index)
next
  assume "length cells \<le> pos"
  then show "cellWalk U lineChars filled tabSize cells pos c st = st"
    by (simp add: cellWalk.simps[of _ _ _ _ _ pos] nth_opt_def)
next
  show "cellWalkFuel (Suc (length cells - pos) + extra) U lineChars filled tabSize cells pos c st =
     Some (cellWalk U lineChars filled tabSize cells pos c st)"
    by (rule cellWalkFuel_enough) simp
qed

text \<open>
  Claim C10, at a concrete run: on the four cells of \<open>ev_cat4\<close> the walk started
  beyond the last cell returns its state at once, and five iterations are enough for
  the walk from the first cell.
\<close>

theorem cell_walk_terminates_witness:
  "length (ev_validCells ev_cat4) \<le> 4 \<and>
   cellWalk textUtils0 [[97], [29483], [98]] [[97], [29483], [98]] 4 (ev_validCells ev_cat4)
     4 3 ([], False) = ([], False) \<and>
   cellWalkFuel 5 textUtils0 [[97], [29483], [98]] [[97], [29483], [98]] 4
     (ev_validCells ev_cat4) 0 0 ([], False) =
   Some (cellWalk textUtils0 [[97], [29483], [98]] [[97], [29483], [98]] 4
     (ev_validCells ev_cat4) 0 0 ([], False))"
proof -
  have l: "length (ev_validCells ev_cat4) \<le> 4"
    by (simp add: ev_cat4_def)
  have n: "Suc (length (ev_validCells ev_cat4) - 0) + 0 = 5"
    by (simp add: ev_cat4_def)
  from l cell_walk_terminates
          [of 4 textUtils0 "[[97], [29483], [98]]" "[[97], [29483], [98]]" 4
              "ev_validCells ev_cat4" "\<lparr>text = [97], hlId = 1\<rparr>" 3 "([], False)" 0]
  have beyond: "cellWalk textUtils0 [[97], [29483], [98]] [[97], [29483], [98]] 4
      (ev_validCells ev_cat4) 4 3 ([], False) = ([], False)"
    by blast
  from cell_walk_terminates
          [of 0 textUtils0 "[[97], [29483], [98]]" "[[97], [29483], [98]]" 4
              "ev_validCells ev_cat4" "\<lparr>text = [97], hlId = 1\<rparr>" 0 "([], False)" 0]
  have "cellWalkFuel (Suc (length (ev_validCells ev_cat4) - 0) + 0) textUtils0
      [[97], [29483], [98]] [[97], [29483], [98]] 4 (ev_validCells ev_cat4) 0 0 ([], False) =
    Some (cellWalk textUtils0 [[97], [29483], [98]] [[97], [29483], [98]] 4
      (ev_validCells ev_cat4) 0 0 ([], False))"
    by blast
  then have fuel: "cellWalkFuel 5 textUtils0
      [[97], [29483], [98]] [[97], [29483], [98]] 4 (ev_validCells ev_cat4) 0 0 ([], False) =
    Some (cellWalk textUtils0 [[97], [29483], [98]] [[97], [29483], [98]] 4
      (ev_validCells ev_cat4) 0 0 ([], False))"
    unfolding n .
  from l beyond fuel show ?thesis
    by blast
qed

section \<open>The claims about the cell-run processor\<close>

text \<open>
  The flag \<open>hasUpdates\<close> is set by every store of the cell walk, without comparing the
  list with the stored one: drawing \<open>a\<close> with id 1 over a grid that holds exactly that
  returns true and leaves the grid as it was.
\<close>

lemma store_sets_flag:
  "processHighlightCellsEvent textUtils0 ev_a1 grid_a1 = (grid_a1, Inr True)"
  by code_simp

text \<open>
  Claim C1, at the input where the code departs from it. The tab of \<open>"\tx"\<close> is stored
  with four cells of id 7; its second half is redrawn with two cells of id 5. The
  region for the previous column stores the merged list in column 0, which changes
  the overlay built for that column, all cells are used up there, so the cell walk
  does nothing, and the call returns false. On the empty grid the same event
  creates the row and column 0, and returns false as well.
\<close>

theorem rederivation_change_not_reported:
  "processHighlightCellsEvent textUtils0 ev_midtab5 grid_tab = (grid_tab_redrawn, Inr False) \<and>
   grid_tab_redrawn \<noteq> grid_tab \<and>
   buildHighlightRanges 0 grid_tab =
     Inr [VirtualRange \<lparr>vr_highlights = [\<lparr>text = [32], hlId = 7, virtText = Some [32]\<rparr>,
                                          \<lparr>text = [32], hlId = 7, virtText = Some [32]\<rparr>,
                                          \<lparr>text = [32], hlId = 7, virtText = Some [32]\<rparr>,
                                          \<lparr>text = [32], hlId = 7, virtText = Some [32]\<rparr>],
                        vr_line = 0, vr_col = 0\<rparr>,
          NormalRange \<lparr>nr_hlId = 6, nr_line = 0, startCol = 1, endCol = 2\<rparr>] \<and>
   buildHighlightRanges 0 grid_tab_redrawn =
     Inr [VirtualRange \<lparr>vr_highlights = [\<lparr>text = [32], hlId = 7, virtText = Some [32]\<rparr>,
                                          \<lparr>text = [32], hlId = 7, virtText = Some [32]\<rparr>,
                                          \<lparr>text = [32], hlId = 5, virtText = Some [32]\<rparr>,
                                          \<lparr>text = [32], hlId = 5, virtText = Some [32]\<rparr>],
                        vr_line = 0, vr_col = 0\<rparr>,
          NormalRange \<lparr>nr_hlId = 6, nr_line = 0, startCol = 1, endCol = 2\<rparr>] \<and>
   processHighlightCellsEvent textUtils0 ev_midtab5 [] =
     ([Some [Some [\<lparr>text = [32], hlId = 5, virtText = Some [32]\<rparr>,
                   \<lparr>text = [32], hlId = 5, virtText = Some [32]\<rparr>]]], Inr False)"
  by code_simp

text \<open>
  Claim C2, at the input where the code departs from it. The empty grid satisfies
  the invariant. Drawing two spaces and \<open>x\<close>, all with id 0, from the middle of the
  tab of \<open>"\tx"\<close> stores the two spaces as the entries of column 0, a list of id-0
  entries only, so the invariant is lost; with no cell at all the list stored is
  empty, and \<open>buildHighlightRanges\<close> fails on it.
\<close>

theorem previous_column_stores_id0_list:
  "grid_pruned [] \<and>
   fst (processHighlightCellsEvent textUtils0 ev_midtab0 []) =
     [Some [Some [\<lparr>text = [32], hlId = 0, virtText = Some [32]\<rparr>,
                  \<lparr>text = [32], hlId = 0, virtText = Some [32]\<rparr>]]] \<and>
   \<not> grid_pruned (fst (processHighlightCellsEvent textUtils0 ev_midtab0 [])) \<and>
   fst (processHighlightCellsEvent textUtils0 ev_midtab_nocells []) = [Some [Some []]] \<and>
   buildHighlightRanges 0 (fst (processHighlightCellsEvent textUtils0 ev_midtab_nocells []))
     = Inl TypeError"
  by code_simp

text \<open>
  Claim C4, at the input where the code departs from it. On the empty grid the
  redraw of the second half of the tab of \<open>"\tx"\<close> stores its two cells in column 0;
  applied again at once, the same event keeps those two as the left part and appends
  its two cells once more, so column 0 holds four entries: the grid after two
  applications is not the grid after one.
\<close>

theorem partial_tab_redraw_twice:
  "fst (processHighlightCellsEvent textUtils0 ev_midtab5 []) =
     [Some [Some [\<lparr>text = [32], hlId = 5, virtText = Some [32]\<rparr>,
                  \<lparr>text = [32], hlId = 5, virtText = Some [32]\<rparr>]]] \<and>
   fst (processHighlightCellsEvent textUtils0 ev_midtab5
          (fst (processHighlightCellsEvent textUtils0 ev_midtab5 []))) =
     [Some [Some [\<lparr>text = [32], hlId = 5, virtText = Some [32]\<rparr>,
                  \<lparr>text = [32], hlId = 5, virtText = Some [32]\<rparr>,
                  \<lparr>text = [32], hlId = 5, virtText = Some [32]\<rparr>,
                  \<lparr>text = [32], hlId = 5, virtText = Some [32]\<rparr>]]] \<and>
   fst (processHighlightCellsEvent textUtils0 ev_midtab5
          (fst (processHighlightCellsEvent textUtils0 ev_midtab5 []))) \<noteq>
   fst (processHighlightCellsEvent textUtils0 ev_midtab5 [])"
  by code_simp

text \<open>
  Claim C6, at the input where the code departs from it. The line is \<open>a\<close>, U+732B,
  \<open>b\<close>, and the four cells from screen column 0 carry the ids 1, 2, 2, 3, the third
  being the empty continuation cell of the double-width glyph. The branch for a
  double-width character whose text matches stores the glyph and leaves the
  continuation cell to the next turn of the loop, where it is taken for the cell of
  \<open>b\<close>: it is stored in column 2 and extends the range of id 2 to column 3, and \<open>b\<close>
  lands in column 3, beyond the line, as an overlay. The result is two normal ranges
  and one virtual range, not the three normal ranges of the claim.
\<close>

theorem continuation_cell_not_consumed:
  "fst (processHighlightCellsEvent textUtils0 ev_cat4 []) =
     [Some [Some [\<lparr>text = [97], hlId = 1, virtText = None\<rparr>],
            Some [\<lparr>text = [29483], hlId = 2, virtText = None\<rparr>],
            Some [\<lparr>text = [], hlId = 2, virtText = Some []\<rparr>],
            Some [\<lparr>text = [98], hlId = 3, virtText = Some [98]\<rparr>]]] \<and>
   buildHighlightRanges 0 (fst (processHighlightCellsEvent textUtils0 ev_cat4 [])) =
     Inr [NormalRange \<lparr>nr_hlId = 1, nr_line = 0, startCol = 0, endCol = 1\<rparr>,
          VirtualRange \<lparr>vr_highlights = [\<lparr>text = [98], hlId = 3, virtText = Some [98]\<rparr>],
                        vr_line = 0, vr_col = 3\<rparr>,
          NormalRange \<lparr>nr_hlId = 2, nr_line = 0, startCol = 1, endCol = 3\<rparr>] \<and>
   buildHighlightRanges 0 (fst (processHighlightCellsEvent textUtils0 ev_cat4 [])) \<noteq>
     Inr [NormalRange \<lparr>nr_hlId = 1, nr_line = 0, startCol = 0, endCol = 1\<rparr>,
          NormalRange \<lparr>nr_hlId = 2, nr_line = 0, startCol = 1, endCol = 2\<rparr>,
          NormalRange \<lparr>nr_hlId = 3, nr_line = 0, startCol = 2, endCol = 3\<rparr>]"
  by code_simp

section \<open>Clearing decorators between refreshes\<close>

lemma keys_map_set: "fst ` set (map_set k v m) = insert k (fst ` set m)"
  by (induction m) auto

lemma distinct_map_set: "distinct (map fst m) \<Longrightarrow> distinct (map fst (map_set k v m))"
  by (induction m) (auto simp: keys_map_set)

lemma map_of_map_push:
  "map_of (map_push k new m) d =
     (if d = k then Some ((case map_of m k of None \<Rightarrow> [] | Some old \<Rightarrow> old) @ new)
      else map_of m d)"
  by (simp add: map_push_def)

lemma distinct_map_push: "distinct (map fst m) \<Longrightarrow> distinct (map fst (map_push k new m))"
  by (simp add: map_push_def distinct_map_set)

lemma keys_map_push: "fst ` set (map_push k new m) = insert k (fst ` set m)"
  by (simp add: map_push_def keys_map_set)

lemma merge_keys: "fst ` set (mergeDecorations ds m) = fst ` set ds \<union> fst ` set m"
  unfolding mergeDecorations_def
proof (induction ds arbitrary: m)
  case Nil
  then show ?case by simp
next
  case (Cons p ds)
  obtain k opts where p: "p = (k, opts)" by (cases p)
  have "fst ` set (fold (\<lambda>(decorator, opts) m. map_push decorator opts m) (p # ds) m) =
        fst ` set ds \<union> fst ` set (map_push k opts m)"
    using Cons.IH[of "map_push k opts m"] by (simp add: p)
  also have "\<dots> = fst ` set ds \<union> insert k (fst ` set m)"
    by (simp only: keys_map_push)
  also have "\<dots> = fst ` set (p # ds) \<union> fst ` set m"
    by (simp add: p)
  finally show ?case .
qed

lemma merge_distinct: "distinct (map fst m) \<Longrightarrow> distinct (map fst (mergeDecorations ds m))"
  unfolding mergeDecorations_def
  by (induction ds arbitrary: m) (auto simp: distinct_map_push)

lemma merge_empty:
  assumes "\<forall>opts. (d, opts) \<in> set ds \<longrightarrow> opts = []" "d \<in> fst ` set ds"
    and "map_of m d = None \<or> map_of m d = Some []"
  shows "map_of (mergeDecorations ds m) d = Some []"
  using assms unfolding mergeDecorations_def
proof (induction ds arbitrary: m)
  case Nil
  then show ?case by simp
next
  case (Cons p ds)
  obtain k opts where p: "p = (k, opts)" by (cases p)
  show ?case
  proof (cases "k = d")
    case True
    with Cons.prems(1) p have "opts = []" by auto
    with True Cons.prems(3) have m': "map_of (map_push k opts m) d = Some []"
      by (auto simp: map_of_map_push)
    show ?thesis
    proof (cases "d \<in> fst ` set ds")
      case True
      with Cons.IH[of "map_push k opts m"] Cons.prems(1) m' p show ?thesis by auto
    next
      case False
      then have "map_of (fold (\<lambda>(decorator, opts) m. map_push decorator opts m) ds (map_push k opts m)) d
                 = map_of (map_push k opts m) d"
        by (induction ds arbitrary: m k opts) (auto simp: map_of_map_push)
      with m' p show ?thesis by simp
    qed
  next
    case False
    with Cons.prems p have "d \<in> fst ` set ds" "map_of (map_push k opts m) d = None \<or> map_of (map_push k opts m) d = Some []"
      by (auto simp: map_of_map_push)
    with Cons.IH[of "map_push k opts m"] Cons.prems(1) p show ?thesis by auto
  qed
qed

lemma clear_map_of:
  "map_of (clearUnused used prev m) d =
     (if d \<in> set prev \<and> d \<notin> used then Some [] else map_of m d)"
  unfolding clearUnused_def
  by (induction prev arbitrary: m) auto

lemma clear_distinct: "distinct (map fst m) \<Longrightarrow> distinct (map fst (clearUnused used prev m))"
  unfolding clearUnused_def
  by (induction prev arbitrary: m) (auto simp: distinct_map_set)

lemma refresh_eq:
  "refreshDecorations True True ds prev =
     (map fst (mergeDecorations ds []),
      clearUnused (set (map fst (mergeDecorations ds []))) prev (mergeDecorations ds []))"
  by (simp add: refreshDecorations_def Let_def)

lemma refresh_two:
  fixes ds1 ds2 :: "('d \<times> 'o list) list"
  assumes r1: "refreshDecorations True True ds1 prev0 = (prev1, calls1)"
    and r2: "refreshDecorations True True ds2 prev1 = (prev2, calls2)"
  shows "(\<forall>d rs. (d, rs) \<in> set calls1 \<and> rs \<noteq> [] \<and> (\<forall>opts. (d, opts) \<in> set ds2 \<longrightarrow> opts = [])
            \<longrightarrow> (d, []) \<in> set calls2) \<and>
         set prev2 = fst ` set ds2"
proof (intro conjI allI impI)
  have "prev2 = map fst (mergeDecorations ds2 [])"
    using r2 by (simp add: refresh_eq)
  then show "set prev2 = fst ` set ds2"
    using merge_keys[of ds2 "[]"] by simp
next
  fix d rs
  assume a: "(d, rs) \<in> set calls1 \<and> rs \<noteq> [] \<and> (\<forall>opts. (d, opts) \<in> set ds2 \<longrightarrow> opts = [])"
  let ?m1 = "mergeDecorations ds1 ([] :: ('d \<times> 'o list) list)"
  let ?m2 = "mergeDecorations ds2 ([] :: ('d \<times> 'o list) list)"
  from r1 have c1: "calls1 = clearUnused (set (map fst ?m1)) prev0 ?m1" and p1: "prev1 = map fst ?m1"
    by (auto simp: refresh_eq)
  from r2 have c2: "calls2 = clearUnused (set (map fst ?m2)) prev1 ?m2"
    by (auto simp: refresh_eq)
  have d1: "distinct (map fst calls1)" unfolding c1 by (simp add: clear_distinct merge_distinct)
  with a have "map_of calls1 d = Some rs" by simp
  with a have "map_of ?m1 d = Some rs"
    unfolding c1 by (auto simp: clear_map_of split: if_splits)
  then have "d \<in> set prev1" unfolding p1
    by (metis map_of_SomeD fst_conv image_eqI set_map)
  have "map_of calls2 d = Some []"
  proof (cases "d \<in> fst ` set ds2")
    case True
    with a have "map_of ?m2 d = Some []" by (intro merge_empty) auto
    moreover have "d \<in> set (map fst ?m2)" using True merge_keys[of ds2 "[]"] by simp
    ultimately show ?thesis unfolding c2 by (simp add: clear_map_of)
  next
    case False
    then have "d \<notin> set (map fst ?m2)" using merge_keys[of ds2 "[]"] by simp
    with \<open>d \<in> set prev1\<close> show ?thesis unfolding c2 by (simp add: clear_map_of)
  qed
  then show "(d, []) \<in> set calls2" by (rule map_of_SomeD)
qed

lemma grid_highlights_two:
  fixes opts1 opts2 :: "(nat \<times> 'o list) list" and res1 res2 :: "('d \<times> 'o list) list"
  assumes r1: "gridHighlightsResult getDec opts1 ids0 = (res1, ids1)"
    and r2: "gridHighlightsResult getDec opts2 (Some ids1) = (res2, ids2)"
  shows "(\<forall>d rs. (d, rs) \<in> set res1 \<and> rs \<noteq> [] \<and>
                 (\<forall>i. getDec i = Some d \<longrightarrow> i \<notin> fst ` set opts2)
            \<longrightarrow> (d, []) \<in> set res2) \<and>
         set ids2 = fst ` set opts2"
proof (intro conjI allI impI)
  have "ids2 = map fst opts2"
    using r2 by (simp add: gridHighlightsResult_def Let_def)
  then show "set ids2 = fst ` set opts2"
    by simp
next
  fix d rs
  assume a: "(d, rs) \<in> set res1 \<and> rs \<noteq> [] \<and>
             (\<forall>i. getDec i = Some d \<longrightarrow> i \<notin> fst ` set opts2)"
  have ids1: "ids1 = map fst opts1"
    using r1 by (simp add: gridHighlightsResult_def Let_def)
  define f :: "nat \<times> 'o list \<Rightarrow> ('d \<times> 'o list) list" where
    "f = (\<lambda>(hid, options).
            if options \<noteq> [] then
              (case getDec hid of None \<Rightarrow> [] | Some decorator \<Rightarrow> [(decorator, options)])
            else [])"
  define cleared :: "('d \<times> 'o list) list" where "cleared = (case ids0 of
               None \<Rightarrow> []
             | Some prev \<Rightarrow>
                 concat (map (\<lambda>id. if id \<notin> fst ` set opts1 then
                                      (case getDec id of
                                         None \<Rightarrow> [] | Some decorator \<Rightarrow> [(decorator, [])])
                                    else []) prev))"
  have res1: "res1 = concat (map f opts1) @ cleared"
    using r1 by (simp add: gridHighlightsResult_def Let_def f_def cleared_def)
  have "\<forall>p \<in> set cleared. snd p = []"
    by (auto simp: cleared_def split: option.splits if_splits)
  with a have "(d, rs) \<in> set (concat (map f opts1))" unfolding res1 by auto
  then obtain p where p: "p \<in> set opts1" "(d, rs) \<in> set (f p)"
    by auto
  obtain k options where pk: "p = (k, options)" by (cases p)
  have kd: "getDec k = Some d"
  proof (cases "options = []")
    case True
    with p(2) show ?thesis by (simp add: pk f_def)
  next
    case False
    show ?thesis
    proof (cases "getDec k")
      case None
      with p(2) False show ?thesis by (simp add: pk f_def)
    next
      case (Some d')
      with p(2) False show ?thesis by (simp add: pk f_def)
    qed
  qed
  from p(1) have k1: "k \<in> fst ` set opts1"
    unfolding pk by (rule image_eqI[rotated]) simp
  from a kd have "k \<notin> fst ` set opts2" by blast
  moreover from k1 ids1 have "k \<in> set ids1" by simp
  ultimately have kin: "k \<in> set ids1" "k \<notin> fst ` set opts2" by simp_all
  define g :: "nat \<Rightarrow> ('d \<times> 'o list) list" where
    "g = (\<lambda>i. if i \<notin> fst ` set opts2 then
                 (case getDec i of None \<Rightarrow> [] | Some decorator \<Rightarrow> [(decorator, [])])
               else [])"
  define f2 :: "nat \<times> 'o list \<Rightarrow> ('d \<times> 'o list) list" where
    "f2 = (\<lambda>(hid, options).
            if options \<noteq> [] then
              (case getDec hid of None \<Rightarrow> [] | Some decorator \<Rightarrow> [(decorator, options)])
            else [])"
  have res2: "res2 = concat (map f2 opts2) @ concat (map g ids1)"
    using r2 by (simp add: gridHighlightsResult_def Let_def f2_def g_def)
  have "(d, []) \<in> set (g k)"
    using kin(2) kd by (simp add: g_def)
  with kin(1) have "(d, []) \<in> set (concat (map g ids1))"
    by auto
  then show "(d, []) \<in> set res2"
    unfolding res2 by simp
qed

text \<open>
  Claim C8. Over two refreshes that run one after the other (editor and viewport
  present): a decorator that was applied with ranges in the first and has no ranges
  in the second is applied with an empty list in the second, and the set kept for
  the next refresh is the set of decorators of the second. The same holds of the
  older \<open>getGridHighlights\<close>, which keeps highlight ids: a decorator returned with
  ranges in the first refresh, none of whose ids has options in the second, is
  returned with an empty list, and the ids kept are those of the second.
\<close>

theorem unused_decorators_are_cleared:
  fixes ds1 ds2 :: "('d \<times> 'o list) list" and opts1 opts2 :: "(nat \<times> 'p list) list"
  assumes "refreshDecorations True True ds1 prev0 = (prev1, calls1)"
    and "refreshDecorations True True ds2 prev1 = (prev2, calls2)"
    and "gridHighlightsResult getDec opts1 ids0 = (res1, ids1)"
    and "gridHighlightsResult getDec opts2 (Some ids1) = (res2, ids2)"
  shows "(\<forall>d rs. (d, rs) \<in> set calls1 \<and> rs \<noteq> [] \<and>
                 (\<forall>opts. (d, opts) \<in> set ds2 \<longrightarrow> opts = [])
            \<longrightarrow> (d, []) \<in> set calls2) \<and>
         set prev2 = fst ` set ds2 \<and>
         (\<forall>d rs. (d, rs) \<in> set res1 \<and> rs \<noteq> [] \<and>
                 (\<forall>i. getDec i = Some d \<longrightarrow> i \<notin> fst ` set opts2)
            \<longrightarrow> (d, []) \<in> set res2) \<and>
         set ids2 = fst ` set opts2"
  using refresh_two[OF assms(1,2)] grid_highlights_two[OF assms(3,4)]
  by blast

text \<open>
  The example of the specification: a style applied with one range in a refresh and
  absent from the next one is applied with the empty list there, and nothing is kept.
\<close>

theorem unused_decorators_are_cleared_witness:
  "refreshDecorations True True [(7::nat, [RangeOptions 0 0 0 1 :: unit decoration_options])] []
     = ([7], [(7, [RangeOptions 0 0 0 1])]) \<and>
   refreshDecorations True True ([] :: (nat \<times> unit decoration_options list) list) [7]
     = ([], [(7, [])]) \<and>
   gridHighlightsResult (\<lambda>id. Some (id + 100)) [(7::nat, [RangeOptions 0 0 0 1 :: unit decoration_options])] None
     = ([(107, [RangeOptions 0 0 0 1])], [7]) \<and>
   gridHighlightsResult (\<lambda>id. Some (id + 100)) ([] :: (nat \<times> unit decoration_options list) list) (Some [7])
     = ([(107::nat, [])], []) \<and>
   (107::nat, []) \<in> set [(107::nat, [] :: unit decoration_options list)] \<and>
   (7::nat, []) \<in> set [(7::nat, [] :: unit decoration_options list)]"
proof -
  have a: "refreshDecorations True True [(7::nat, [RangeOptions 0 0 0 1 :: unit decoration_options])] []
     = ([7], [(7, [RangeOptions 0 0 0 1])])"
    by (simp add: refreshDecorations_def mergeDecorations_def clearUnused_def map_push_def)
  have b: "refreshDecorations True True ([] :: (nat \<times> unit decoration_options list) list) [7]
     = ([], [(7, [])])"
    by (simp add: refreshDecorations_def mergeDecorations_def clearUnused_def map_push_def)
  have c: "gridHighlightsResult (\<lambda>id. Some (id + 100)) [(7::nat, [RangeOptions 0 0 0 1 :: unit decoration_options])] None
     = ([(107, [RangeOptions 0 0 0 1])], [7])"
    by (simp add: gridHighlightsResult_def)
  have d: "gridHighlightsResult (\<lambda>id. Some (id + 100)) ([] :: (nat \<times> unit decoration_options list) list) (Some [7])
     = ([(107::nat, [])], [])"
    by (simp add: gridHighlightsResult_def)
  from unused_decorators_are_cleared[OF a b c d] a b c d show ?thesis
    by simp
qed

section \<open>Overlay fragments\<close>

lemma addFragment_nonempty: "addFragment h acc \<noteq> []"
  by (simp add: addFragment_def Let_def)

lemma fold_addFragment_nonempty: "acc \<noteq> [] \<Longrightarrow> fold addFragment hs acc \<noteq> []"
  by (induction hs arbitrary: acc) (auto simp: addFragment_nonempty)

lemma processColHighlights_nonempty: "hs \<noteq> [] \<Longrightarrow> processColHighlights hs \<noteq> []"
  by (cases hs) (auto simp: processColHighlights_def fold_addFragment_nonempty addFragment_nonempty)

lemma fold_addFragment_length:
  "acc \<noteq> [] \<Longrightarrow>
   length (fold addFragment hs acc) = length acc + length (filter (\<lambda>h. hlId h \<noteq> 0) hs)"
proof (induction hs arbitrary: acc)
  case Nil
  then show ?case by simp
next
  case (Cons h hs)
  have ne: "addFragment h acc \<noteq> []" by (rule addFragment_nonempty)
  have "length (addFragment h acc) = length acc + (if hlId h \<noteq> 0 then 1 else 0)"
    using Cons.prems by (auto simp: addFragment_def Let_def)
  with Cons.IH[OF ne] show ?case by simp
qed

lemma processColHighlights_count:
  "length (processColHighlights (h # hs)) = Suc (length (filter (\<lambda>h. hlId h \<noteq> 0) hs))"
proof -
  have "addFragment h [] \<noteq> []" "length (addFragment h []) = 1"
    by (simp_all add: addFragment_def Let_def)
  then show ?thesis
    using fold_addFragment_length[of "addFragment h []" hs]
    by (simp add: processColHighlights_def)
qed

lemma rangeToOptions_zero:
  "\<forall>hl \<in> set (vr_highlights v). hlId hl = 0 \<Longrightarrow>
   rangeToOptions lineAt getDecorator (VirtualRange v) m = m"
  by (simp add: rangeToOptions_def list_all_iff)

lemma highlightRangesToOptions_skip:
  assumes "\<forall>hl \<in> set (vr_highlights v). hlId hl = 0"
  shows "highlightRangesToOptions lineAt getDecorator (rs1 @ VirtualRange v # rs2) =
         highlightRangesToOptions lineAt getDecorator (rs1 @ rs2)"
  by (simp add: highlightRangesToOptions_def rangeToOptions_zero[OF assms])

lemma overlayCount_map_push:
  "overlayCount (map_push k new m) = overlayCount m + length new"
  unfolding map_push_def overlayCount_def
  by (induction m) auto

lemma map_of_fold_push:
  "map_of (fold (\<lambda>x m. if P x then map_push (key x) [val x] m else m) xs m0) k =
     (if filter (\<lambda>x. P x \<and> key x = k) xs = [] then map_of m0 k
      else Some ((case map_of m0 k of None \<Rightarrow> [] | Some old \<Rightarrow> old) @
                 map val (filter (\<lambda>x. P x \<and> key x = k) xs)))"
proof (induction xs arbitrary: m0)
  case Nil
  then show ?case by simp
next
  case (Cons x xs)
  show ?case
    by (simp add: Cons.IH map_of_map_push)
qed

lemma overlayCount_fold_push:
  "overlayCount (fold (\<lambda>x m. if P x then map_push (key x) [val x] m else m) xs m0) =
     overlayCount m0 + length (filter P xs)"
  by (induction xs arbitrary: m0) (simp_all add: overlayCount_map_push)

lemma map_fst_filter_zip:
  "map fst (filter (\<lambda>x. Q (fst x)) (zip xs [0..<length xs])) = filter Q xs"
proof -
  have "map fst (filter (\<lambda>x. Q (fst x)) zs) = filter Q (map fst zs)" for zs :: "('a \<times> nat) list"
    by (induction zs) auto
  then show ?thesis by simp
qed

lemma createColVirtTextOptions_fold:
  fixes getDecorator :: "nat \<Rightarrow> 'd option \<times> 'o"
  shows "createColVirtTextOptions getDecorator line lineText col hls =
     fold (\<lambda>x m. if fst (getDecorator (fr_hlId (fst x))) \<noteq> None
                  then map_push (fr_hlId (fst x))
                         [BeforeOptions \<lparr>bo_line = line, bo_col = min (js_length lineText) col,
                            bo_style = snd (getDecorator (fr_hlId (fst x))),
                            contentText = fr_virtText (fst x),
                            marginCh = (if col > js_length lineText
                                        then snd x + (col - js_length lineText) else snd x),
                            widthCh = js_length (fr_virtText (fst x)),
                            zIndex = 99 - int (if col > js_length lineText
                                               then snd x + (col - js_length lineText) else snd x),
                            bo_hlId = fr_hlId (fst x)\<rparr>] m
                  else m)
       (zip (processColHighlights hls) [0..<length (processColHighlights hls)]) []"
  unfolding createColVirtTextOptions_def Let_def
  by (rule fold_cong) (auto simp: fun_eq_iff split: prod.splits option.splits)

lemma overlayTexts_create:
  fixes getDecorator :: "nat \<Rightarrow> 'd option \<times> 'o"
  shows "overlayTexts k (createColVirtTextOptions getDecorator line lineText col hls) =
     (if fst (getDecorator k) = None then []
      else map fr_virtText (filter (\<lambda>f. fr_hlId f = k) (processColHighlights hls)))"
proof -
  define F where "F = processColHighlights hls"
  define Q :: "fragment \<Rightarrow> bool"
    where "Q = (\<lambda>f. fst (getDecorator (fr_hlId f)) \<noteq> None \<and> fr_hlId f = k)"
  define val :: "fragment \<times> nat \<Rightarrow> 'o decoration_options"
    where "val = (\<lambda>x. BeforeOptions \<lparr>bo_line = line, bo_col = min (js_length lineText) col,
                            bo_style = snd (getDecorator (fr_hlId (fst x))),
                            contentText = fr_virtText (fst x),
                            marginCh = (if col > js_length lineText
                                        then snd x + (col - js_length lineText) else snd x),
                            widthCh = js_length (fr_virtText (fst x)),
                            zIndex = 99 - int (if col > js_length lineText
                                               then snd x + (col - js_length lineText) else snd x),
                            bo_hlId = fr_hlId (fst x)\<rparr>)"
  define sel where "sel = filter (\<lambda>x. Q (fst x)) (zip F [0..<length F])"
  have look: "map_of (createColVirtTextOptions getDecorator line lineText col hls) k =
      (if sel = [] then None else Some (map val sel))"
    unfolding createColVirtTextOptions_fold map_of_fold_push sel_def Q_def val_def F_def
    by simp
  have ct: "concat (map (\<lambda>opt. case opt of BeforeOptions b \<Rightarrow> [contentText b]
                                 | RangeOptions _ _ _ _ \<Rightarrow> []) (map val ys)) =
            map fr_virtText (map fst ys)" for ys
    by (induction ys) (simp_all add: val_def)
  have sel: "map fst sel = filter Q F"
    unfolding sel_def by (rule map_fst_filter_zip)
  have Qk: "filter Q F = (if fst (getDecorator k) = None then [] else filter (\<lambda>f. fr_hlId f = k) F)"
    unfolding Q_def by (induction F) auto
  have "overlayTexts k (createColVirtTextOptions getDecorator line lineText col hls) =
          map fr_virtText (map fst sel)"
    unfolding overlayTexts_def look using ct[of sel] by (cases "sel = []") simp_all
  also have "\<dots> = (if fst (getDecorator k) = None then []
      else map fr_virtText (filter (\<lambda>f. fr_hlId f = k) F))"
    unfolding sel Qk by simp
  finally show ?thesis
    unfolding F_def .
qed

lemma overlayCount_create:
  fixes getDecorator :: "nat \<Rightarrow> 'd option \<times> 'o"
  shows "overlayCount (createColVirtTextOptions getDecorator line lineText col hls) =
     length (filter (\<lambda>f. fst (getDecorator (fr_hlId f)) \<noteq> None) (processColHighlights hls))"
proof -
  have "length (filter (\<lambda>x. Q (fst x)) (zip xs [0..<length xs])) = length (filter Q xs)"
    for Q :: "fragment \<Rightarrow> bool" and xs
    using map_fst_filter_zip[of Q xs] by (metis length_map)
  then show ?thesis
    unfolding createColVirtTextOptions_fold overlayCount_fold_push
    by (simp add: overlayCount_def)
qed

lemma processColHighlights_snoc:
  "processColHighlights (pre @ [h]) = addFragment h (processColHighlights pre)"
  by (simp add: processColHighlights_def)

lemma processColHighlights_join:
  assumes "pre \<noteq> []" "hlId h = 0"
  shows "processColHighlights (pre @ [h]) =
           butlast (processColHighlights pre) @
           [(last (processColHighlights pre))
              \<lparr>fr_virtText := fr_virtText (last (processColHighlights pre)) @
                              (case virtText h of None \<Rightarrow> text h | Some v \<Rightarrow> v)\<rparr>]"
  using processColHighlights_nonempty[OF assms(1)] assms(2)
  by (simp add: processColHighlights_snoc addFragment_def Let_def)

lemma fragment_ids_join:
  assumes "pre \<noteq> []" "hlId h = 0"
  shows "map fr_hlId (processColHighlights (pre @ [h])) = map fr_hlId (processColHighlights pre)"
proof -
  have ne: "processColHighlights pre \<noteq> []"
    by (rule processColHighlights_nonempty[OF assms(1)])
  then have "map fr_hlId (processColHighlights pre) =
               map fr_hlId (butlast (processColHighlights pre)) @
               [fr_hlId (last (processColHighlights pre))]"
    by (metis append_butlast_last_id list.simps(8,9) map_append)
  then show ?thesis
    unfolding processColHighlights_join[OF assms] by simp
qed

lemma overlayCount_join:
  fixes getDecorator :: "nat \<Rightarrow> 'd option \<times> 'o"
  assumes "pre \<noteq> []" "hlId h = 0"
  shows "overlayCount (createColVirtTextOptions getDecorator line lineText col (pre @ [h])) =
         overlayCount (createColVirtTextOptions getDecorator line lineText col pre)"
proof -
  have eq: "length (filter (\<lambda>f. P (fr_hlId f)) fs) = length (filter P (map fr_hlId fs))"
    for P and fs :: "fragment list"
    by (induction fs) auto
  show ?thesis
    unfolding overlayCount_create
    using eq[of "\<lambda>k. fst (getDecorator k) \<noteq> None" "processColHighlights (pre @ [h])"]
      eq[of "\<lambda>k. fst (getDecorator k) \<noteq> None" "processColHighlights pre"]
      fragment_ids_join[OF assms]
    by simp
qed

lemma overlayTexts_join:
  fixes getDecorator :: "nat \<Rightarrow> 'd option \<times> 'o"
  assumes "pre \<noteq> []" "hlId h = 0"
    and dec: "fst (getDecorator (fr_hlId (last (processColHighlights pre)))) \<noteq> None"
  shows "overlayTexts (fr_hlId (last (processColHighlights pre)))
           (createColVirtTextOptions getDecorator line lineText col (pre @ [h])) =
         butlast (overlayTexts (fr_hlId (last (processColHighlights pre)))
                    (createColVirtTextOptions getDecorator line lineText col pre)) @
         [last (overlayTexts (fr_hlId (last (processColHighlights pre)))
                  (createColVirtTextOptions getDecorator line lineText col pre)) @
          (case virtText h of None \<Rightarrow> text h | Some v \<Rightarrow> v)]"
proof -
  define F where "F = processColHighlights pre"
  define k where "k = fr_hlId (last F)"
  have ne: "F \<noteq> []"
    unfolding F_def by (rule processColHighlights_nonempty[OF assms(1)])
  then have F: "F = butlast F @ [last F]" by simp
  have old: "filter (\<lambda>f. fr_hlId f = k) F = filter (\<lambda>f. fr_hlId f = k) (butlast F) @ [last F]"
    by (subst F) (simp add: k_def)
  have nd: "(fst (getDecorator k) = None) = False"
    using dec by (simp add: k_def F_def)
  have texts: "map fr_virtText (filter (\<lambda>f. fr_hlId f = k) F) =
      map fr_virtText (filter (\<lambda>f. fr_hlId f = k) (butlast F)) @ [fr_virtText (last F)]"
    unfolding old by simp
  show ?thesis
    unfolding overlayTexts_create processColHighlights_join[OF assms(1,2)]
      F_def[symmetric] k_def[symmetric] nd if_False texts
    by (simp add: k_def)
qed

lemma overlayTexts_join_other:
  fixes getDecorator :: "nat \<Rightarrow> 'd option \<times> 'o"
  assumes "pre \<noteq> []" "hlId h = 0"
    and "k \<noteq> fr_hlId (last (processColHighlights pre))"
  shows "overlayTexts k (createColVirtTextOptions getDecorator line lineText col (pre @ [h])) =
         overlayTexts k (createColVirtTextOptions getDecorator line lineText col pre)"
proof -
  define F where "F = processColHighlights pre"
  have ne: "F \<noteq> []"
    unfolding F_def by (rule processColHighlights_nonempty[OF assms(1)])
  then have F: "F = butlast F @ [last F]" by simp
  have old: "filter (\<lambda>f. fr_hlId f = k) F = filter (\<lambda>f. fr_hlId f = k) (butlast F)"
    using assms(3) by (subst F) (simp add: F_def)
  show ?thesis
    unfolding overlayTexts_create processColHighlights_join[OF assms(1,2)]
    using assms(3) old
    by (simp add: F_def[symmetric])
qed

lemma fragment_ids_nonzero:
  assumes "acc \<noteq> []" "\<forall>f \<in> set acc. fr_hlId f \<noteq> 0"
  shows "\<forall>f \<in> set (fold addFragment hs acc). fr_hlId f \<noteq> 0"
  using assms
proof (induction hs arbitrary: acc)
  case Nil
  then show ?case by simp
next
  case (Cons h hs)
  have ne: "addFragment h acc \<noteq> []" by (rule addFragment_nonempty)
  have "set (butlast acc) \<subseteq> set acc" by (simp add: in_set_butlastD subsetI)
  moreover have "last acc \<in> set acc" using Cons.prems(1) by simp
  ultimately have "\<forall>f \<in> set (addFragment h acc). fr_hlId f \<noteq> 0"
    using Cons.prems by (auto simp: addFragment_def Let_def)
  from Cons.IH[OF ne this] show ?case by simp
qed

lemma overlayTexts_zero:
  fixes getDecorator :: "nat \<Rightarrow> 'd option \<times> 'o"
  assumes "hls \<noteq> []" "hlId (hd hls) \<noteq> 0"
  shows "overlayTexts 0 (createColVirtTextOptions getDecorator line lineText col hls) = []"
proof -
  obtain h hs where hls: "hls = h # hs" using assms(1) by (cases hls) auto
  have "\<forall>f \<in> set (fold addFragment hs (addFragment h [])). fr_hlId f \<noteq> 0"
    using assms(2) hls
    by (intro fragment_ids_nonzero) (simp_all add: addFragment_def)
  then have "filter (\<lambda>f. fr_hlId f = 0) (processColHighlights hls) = []"
    by (simp add: hls processColHighlights_def filter_empty_conv)
  then show ?thesis
    unfolding overlayTexts_create by simp
qed

lemma addFragment_provider_nonempty: "addFragment_provider h acc \<noteq> []"
  by (simp add: addFragment_provider_def)

lemma fold_addFragment_provider_nonempty:
  "acc \<noteq> [] \<Longrightarrow> fold addFragment_provider hs acc \<noteq> []"
  by (induction hs arbitrary: acc) (auto simp: addFragment_provider_nonempty)

lemma processColHighlights_provider_nonempty:
  "hs \<noteq> [] \<Longrightarrow> processColHighlights_provider hs \<noteq> []"
  by (cases hs)
    (auto simp: processColHighlights_provider_def fold_addFragment_provider_nonempty
      addFragment_provider_nonempty)

lemma processColHighlights_provider_join:
  assumes "pre \<noteq> []" "ph_hlId h = 0"
  shows "processColHighlights_provider (pre @ [h]) =
           butlast (processColHighlights_provider pre) @
           [(last (processColHighlights_provider pre))
              \<lparr>pf_virtText := js_append (pf_virtText (last (processColHighlights_provider pre)))
                                 (ph_virtText h)\<rparr>]"
  using processColHighlights_provider_nonempty[OF assms(1)] assms(2)
  by (simp add: processColHighlights_provider_def addFragment_provider_def)

lemma provider_fragments_strings:
  assumes "\<forall>f \<in> set acc. \<exists>s. pf_virtText f = JsString s"
    and "\<forall>h \<in> set hs. ph_virtText h \<noteq> None"
  shows "\<forall>f \<in> set (fold addFragment_provider hs acc). \<exists>s. pf_virtText f = JsString s"
  using assms
proof (induction hs arbitrary: acc)
  case Nil
  then show ?case by simp
next
  case (Cons h hs)
  obtain t where t: "ph_virtText h = Some t" using Cons.prems(2) by auto
  have "\<forall>f \<in> set (addFragment_provider h acc). \<exists>s. pf_virtText f = JsString s"
  proof (cases "ph_hlId h = 0 \<and> length acc > 0")
    case True
    then have ne: "acc \<noteq> []" by auto
    then have "last acc \<in> set acc" by simp
    then obtain s where s: "pf_virtText (last acc) = JsString s" using Cons.prems(1) by blast
    have "set (butlast acc) \<subseteq> set acc" by (simp add: in_set_butlastD subsetI)
    then show ?thesis
      using True Cons.prems(1) s t by (auto simp: addFragment_provider_def)
  next
    case False
    then show ?thesis
      using Cons.prems(1) t by (auto simp: addFragment_provider_def)
  qed
  from Cons.IH[OF this] Cons.prems(2) show ?case by simp
qed

lemma provider_fold_ok:
  fixes getDec :: "nat \<Rightarrow> 'd option" and getOpts :: "'d \<Rightarrow> 'o"
  assumes "\<forall>x \<in> set zs. getDec (pf_hlId (fst x)) \<noteq> None \<longrightarrow>
             (\<exists>s. pf_virtText (fst x) = JsString s)"
  shows "fold (\<lambda>(frag, offset0) acc.
                 case acc of
                   Inl e \<Rightarrow> Inl e
                 | Inr hlId_options \<Rightarrow>
                     (case getDec (pf_hlId frag) of
                        None \<Rightarrow> Inr hlId_options
                      | Some decorator \<Rightarrow>
                          (case pf_virtText frag of
                             JsString vt \<Rightarrow>
                               Inr (map_push (pf_hlId frag)
                                         [\<lparr>pb_line = line, pb_col = vcol,
                                           pb_style = getOpts decorator,
                                           pb_contentText = replace_first SPACE 8205 vt,
                                           pb_marginCh = (if col > n then offset0 + (col - n)
                                                          else offset0),
                                           pb_widthCh = js_length (replace_first SPACE 8205 vt),
                                           pb_zIndex = 99 - int (if col > n then offset0 + (col - n)
                                                          else offset0)\<rparr>]
                                         hlId_options)
                           | _ \<Rightarrow> Inl TypeError)))
           zs (Inr m) =
         Inr (fold (\<lambda>x m. if getDec (pf_hlId (fst x)) \<noteq> None
                    then map_push (pf_hlId (fst x))
                           [\<lparr>pb_line = line, pb_col = vcol,
                             pb_style = getOpts (the (getDec (pf_hlId (fst x)))),
                             pb_contentText = replace_first SPACE 8205 (fragmentText (fst x)),
                             pb_marginCh = (if col > n then snd x + (col - n) else snd x),
                             pb_widthCh = js_length (replace_first SPACE 8205 (fragmentText (fst x))),
                             pb_zIndex = 99 - int (if col > n then snd x + (col - n) else snd x)\<rparr>] m
                    else m) zs m)"
  using assms
proof (induction zs arbitrary: m)
  case Nil
  then show ?case by simp
next
  case (Cons z zs)
  obtain f i where z: "z = (f, i)" by (cases z)
  show ?case
  proof (cases "getDec (pf_hlId f)")
    case None
    with Cons z show ?thesis by simp
  next
    case (Some d)
    with Cons.prems z obtain s where s: "pf_virtText f = JsString s" by auto
    from Cons.prems have rest: "\<forall>x \<in> set zs. getDec (pf_hlId (fst x)) \<noteq> None \<longrightarrow>
             (\<exists>s. pf_virtText (fst x) = JsString s)" by simp
    show ?thesis
      using Cons.IH[OF rest] Some s z by (simp add: fragmentText_def)
  qed
qed

lemma provider_create_fold:
  fixes getDec :: "nat \<Rightarrow> 'd option" and getOpts :: "'d \<Rightarrow> 'o"
  assumes "\<forall>f \<in> set (processColHighlights_provider hls).
             getDec (pf_hlId f) \<noteq> None \<longrightarrow> (\<exists>s. pf_virtText f = JsString s)"
  shows "createColVirtTextOptions_provider getDec getOpts line col hls lineText =
         Inr (fold (\<lambda>x m. if getDec (pf_hlId (fst x)) \<noteq> None
                    then map_push (pf_hlId (fst x))
                           [\<lparr>pb_line = line, pb_col = min (js_length lineText) col,
                             pb_style = getOpts (the (getDec (pf_hlId (fst x)))),
                             pb_contentText = replace_first SPACE 8205 (fragmentText (fst x)),
                             pb_marginCh = (if col > js_length lineText
                                            then snd x + (col - js_length lineText) else snd x),
                             pb_widthCh = js_length (replace_first SPACE 8205 (fragmentText (fst x))),
                             pb_zIndex = 99 - int (if col > js_length lineText
                                            then snd x + (col - js_length lineText) else snd x)\<rparr>] m
                    else m)
                (zip (processColHighlights_provider hls)
                     [0..<length (processColHighlights_provider hls)]) [])"
proof -
  have "\<forall>x \<in> set (zip (processColHighlights_provider hls)
                     [0..<length (processColHighlights_provider hls)]).
          getDec (pf_hlId (fst x)) \<noteq> None \<longrightarrow> (\<exists>s. pf_virtText (fst x) = JsString s)"
    using assms by (auto dest: set_zip_leftD)
  from provider_fold_ok[OF this] show ?thesis
    unfolding createColVirtTextOptions_provider_def Let_def .
qed

lemma providerTexts_create:
  fixes getDec :: "nat \<Rightarrow> 'd option" and getOpts :: "'d \<Rightarrow> 'o"
  assumes "createColVirtTextOptions_provider getDec getOpts line col hls lineText =
         Inr (fold (\<lambda>x m. if getDec (pf_hlId (fst x)) \<noteq> None
                    then map_push (pf_hlId (fst x)) [val x] m else m)
                (zip F [0..<length F]) [])"
    and "\<And>x. pb_contentText (val x) = replace_first SPACE 8205 (fragmentText (fst x))"
  shows "\<exists>m. createColVirtTextOptions_provider getDec getOpts line col hls lineText = Inr m \<and>
           providerTexts k m =
             (if getDec k = None then []
              else map (\<lambda>f. replace_first SPACE 8205 (fragmentText f))
                     (filter (\<lambda>f. pf_hlId f = k) F)) \<and>
           overlayCount m = length (filter (\<lambda>f. getDec (pf_hlId f) \<noteq> None) F)"
proof -
  define Q :: "provider_fragment \<Rightarrow> bool"
    where "Q = (\<lambda>f. getDec (pf_hlId f) \<noteq> None \<and> pf_hlId f = k)"
  define sel where "sel = filter (\<lambda>x. Q (fst x)) (zip F [0..<length F])"
  define m where "m = fold (\<lambda>x m. if getDec (pf_hlId (fst x)) \<noteq> None
                    then map_push (pf_hlId (fst x)) [val x] m else m)
                (zip F [0..<length F]) []"
  have look: "map_of m k = (if sel = [] then None else Some (map val sel))"
    unfolding m_def map_of_fold_push sel_def Q_def by simp
  have ct: "map pb_contentText (map val ys) =
            map (\<lambda>f. replace_first SPACE 8205 (fragmentText f)) (map fst ys)" for ys
    by (induction ys) (simp_all add: assms(2))
  have sel: "map fst sel = filter Q F"
    unfolding sel_def by (rule map_fst_filter_zip)
  have Qk: "filter Q F = (if getDec k = None then [] else filter (\<lambda>f. pf_hlId f = k) F)"
    unfolding Q_def by (induction F) auto
  have "providerTexts k m = map (\<lambda>f. replace_first SPACE 8205 (fragmentText f)) (map fst sel)"
    unfolding providerTexts_def look using ct[of sel] by (cases "sel = []") simp_all
  then have texts: "providerTexts k m =
             (if getDec k = None then []
              else map (\<lambda>f. replace_first SPACE 8205 (fragmentText f))
                     (filter (\<lambda>f. pf_hlId f = k) F))"
    unfolding sel Qk by simp
  have len: "length (filter (\<lambda>x. R (fst x)) (zip xs [0..<length xs])) = length (filter R xs)"
    for R :: "provider_fragment \<Rightarrow> bool" and xs
    using map_fst_filter_zip[of R xs] by (metis length_map)
  have count: "overlayCount m = length (filter (\<lambda>f. getDec (pf_hlId f) \<noteq> None) F)"
    unfolding m_def overlayCount_fold_push
    using len[of "\<lambda>f. getDec (pf_hlId f) \<noteq> None" F] by (simp add: overlayCount_def)
  from assms(1) texts count show ?thesis
    unfolding m_def by blast
qed

lemma provider_overlays:
  fixes getDec :: "nat \<Rightarrow> 'd option" and getOpts :: "'d \<Rightarrow> 'o"
  assumes "\<forall>h \<in> set hls. ph_virtText h \<noteq> None"
  shows "\<exists>m. createColVirtTextOptions_provider getDec getOpts line col hls lineText = Inr m \<and>
           providerTexts k m =
             (if getDec k = None then []
              else map (\<lambda>f. replace_first SPACE 8205 (fragmentText f))
                     (filter (\<lambda>f. pf_hlId f = k) (processColHighlights_provider hls))) \<and>
           overlayCount m =
             length (filter (\<lambda>f. getDec (pf_hlId f) \<noteq> None) (processColHighlights_provider hls))"
proof -
  have "\<forall>f \<in> set (processColHighlights_provider hls). \<exists>s. pf_virtText f = JsString s"
    unfolding processColHighlights_provider_def
    using assms by (intro provider_fragments_strings) simp_all
  then have "\<forall>f \<in> set (processColHighlights_provider hls).
             getDec (pf_hlId f) \<noteq> None \<longrightarrow> (\<exists>s. pf_virtText f = JsString s)"
    by blast
  from provider_create_fold[OF this, of getOpts line col lineText]
  show ?thesis
    by (rule providerTexts_create) simp
qed

lemma provider_fragment_ids_zero:
  assumes "\<forall>f \<in> set acc. pf_hlId f = 0" "\<forall>h \<in> set hs. ph_hlId h = 0"
  shows "\<forall>f \<in> set (fold addFragment_provider hs acc). pf_hlId f = 0"
  using assms
proof (induction hs arbitrary: acc)
  case Nil
  then show ?case by simp
next
  case (Cons h hs)
  have "set (butlast acc) \<subseteq> set acc" by (simp add: in_set_butlastD subsetI)
  moreover have "acc \<noteq> [] \<Longrightarrow> last acc \<in> set acc" by simp
  ultimately have "\<forall>f \<in> set (addFragment_provider h acc). pf_hlId f = 0"
    using Cons.prems by (auto simp: addFragment_provider_def)
  from Cons.IH[OF this] Cons.prems(2) show ?case by simp
qed

lemma provider_all_zero:
  fixes getDec :: "nat \<Rightarrow> 'd option" and getOpts :: "'d \<Rightarrow> 'o"
  assumes "\<forall>h \<in> set hls. ph_hlId h = 0" "getDec 0 = None"
  shows "createColVirtTextOptions_provider getDec getOpts line col hls lineText = Inr []"
proof -
  have zero: "\<forall>f \<in> set (processColHighlights_provider hls). pf_hlId f = 0"
    unfolding processColHighlights_provider_def
    using assms(1) by (intro provider_fragment_ids_zero) simp_all
  then have "\<forall>f \<in> set (processColHighlights_provider hls).
             getDec (pf_hlId f) \<noteq> None \<longrightarrow> (\<exists>s. pf_virtText f = JsString s)"
    using assms(2) by simp
  note form = provider_create_fold[OF this, of getOpts line col lineText]
  have idle: "fold (\<lambda>x m. if P x then g x m else m) zs m0 = m0"
    if "\<forall>x \<in> set zs. \<not> P x" for P g and zs :: "(provider_fragment \<times> nat) list"
      and m0 :: "(nat \<times> 'o provider_before list) list"
    using that by (induction zs arbitrary: m0) simp_all
  have "\<forall>x \<in> set (zip (processColHighlights_provider hls)
                     [0..<length (processColHighlights_provider hls)]).
          \<not> getDec (pf_hlId (fst x)) \<noteq> None"
    using zero assms(2) by (auto dest: set_zip_leftD)
  from idle[OF this] show ?thesis
    unfolding form by simp
qed

text \<open>
  Claim C7. In \<open>createColVirtTextOptions\<close> an entry with highlight id 0 that has an
  entry before it adds its text (its virtual text, or its cell text when it has none)
  to the virtual text of the last fragment processed so far and starts no fragment.
  The overlays emitted are those of the fragments: for every highlight id, the texts
  of the overlays under that id are the virtual texts of the fragments of that id
  that have a decorator, one overlay for each. So appending such an id-0 entry to a
  column leaves the number of overlays as it was, appends the entry's text to the
  last overlay of the last fragment's id, and leaves the overlays of every other id
  alone; and a column that starts with a non-zero id has no overlay under id 0. A
  virtual range whose entries all have id 0 is skipped by \<open>highlightRangesToOptions\<close>,
  so it adds no decoration.

  The older provider joins an id-0 entry to the last fragment in the same way, with
  \<open>+=\<close> on \<open>virtText\<close>, and, for a column whose entries all carry a virtual text, emits
  one overlay for each fragment with a decorator, its text being the fragment's with
  the first space replaced. It has no test for a column of id-0 entries only: such a
  column gives the one fragment of id 0, which is passed over when id 0 has no
  decorator.
\<close>

theorem id0_entry_joins_previous_fragment:
  fixes getDecorator :: "nat \<Rightarrow> 'd option \<times> 'o"
    and getDecoratorForHighlightId :: "nat \<Rightarrow> 'd option"
    and getDecoratorOptions :: "'d \<Rightarrow> 'o"
  shows
  "(pre \<noteq> [] \<and> hlId h = 0 \<longrightarrow>
      processColHighlights (pre @ [h]) =
        butlast (processColHighlights pre) @
        [(last (processColHighlights pre))
           \<lparr>fr_virtText := fr_virtText (last (processColHighlights pre)) @
                           (case virtText h of None \<Rightarrow> text h | Some v \<Rightarrow> v)\<rparr>] \<and>
      overlayCount (createColVirtTextOptions getDecorator line lineText col (pre @ [h])) =
        overlayCount (createColVirtTextOptions getDecorator line lineText col pre) \<and>
      (fst (getDecorator (fr_hlId (last (processColHighlights pre)))) \<noteq> None \<longrightarrow>
         overlayTexts (fr_hlId (last (processColHighlights pre)))
           (createColVirtTextOptions getDecorator line lineText col (pre @ [h])) =
         butlast (overlayTexts (fr_hlId (last (processColHighlights pre)))
                    (createColVirtTextOptions getDecorator line lineText col pre)) @
         [last (overlayTexts (fr_hlId (last (processColHighlights pre)))
                  (createColVirtTextOptions getDecorator line lineText col pre)) @
          (case virtText h of None \<Rightarrow> text h | Some v \<Rightarrow> v)]) \<and>
      (k' \<noteq> fr_hlId (last (processColHighlights pre)) \<longrightarrow>
         overlayTexts k' (createColVirtTextOptions getDecorator line lineText col (pre @ [h])) =
         overlayTexts k' (createColVirtTextOptions getDecorator line lineText col pre))) \<and>
   overlayTexts k (createColVirtTextOptions getDecorator line lineText col hls) =
     (if fst (getDecorator k) = None then []
      else map fr_virtText (filter (\<lambda>f. fr_hlId f = k) (processColHighlights hls))) \<and>
   overlayCount (createColVirtTextOptions getDecorator line lineText col hls) =
     length (filter (\<lambda>f. fst (getDecorator (fr_hlId f)) \<noteq> None) (processColHighlights hls)) \<and>
   length (processColHighlights (e # es)) = Suc (length (filter (\<lambda>h. hlId h \<noteq> 0) es)) \<and>
   (hls \<noteq> [] \<and> hlId (hd hls) \<noteq> 0 \<longrightarrow>
      overlayTexts 0 (createColVirtTextOptions getDecorator line lineText col hls) = []) \<and>
   (list_all (\<lambda>hl. hlId hl = 0) (vr_highlights v) \<longrightarrow>
      highlightRangesToOptions lineAt getDecorator (rs1 @ VirtualRange v # rs2) =
      highlightRangesToOptions lineAt getDecorator (rs1 @ rs2)) \<and>
   (ppre \<noteq> [] \<and> ph_hlId ph = 0 \<longrightarrow>
      processColHighlights_provider (ppre @ [ph]) =
        butlast (processColHighlights_provider ppre) @
        [(last (processColHighlights_provider ppre))
           \<lparr>pf_virtText := js_append (pf_virtText (last (processColHighlights_provider ppre)))
                              (ph_virtText ph)\<rparr>]) \<and>
   (list_all (\<lambda>h. ph_virtText h \<noteq> None) phls \<longrightarrow>
      (\<exists>m. createColVirtTextOptions_provider getDecoratorForHighlightId getDecoratorOptions
              line col phls lineText = Inr m \<and>
           providerTexts k m =
             (if getDecoratorForHighlightId k = None then []
              else map (\<lambda>f. replace_first SPACE 8205 (fragmentText f))
                     (filter (\<lambda>f. pf_hlId f = k) (processColHighlights_provider phls))) \<and>
           overlayCount m =
             length (filter (\<lambda>f. getDecoratorForHighlightId (pf_hlId f) \<noteq> None)
                       (processColHighlights_provider phls)))) \<and>
   (list_all (\<lambda>h. ph_hlId h = 0) phls \<and> getDecoratorForHighlightId 0 = None \<longrightarrow>
      createColVirtTextOptions_provider getDecoratorForHighlightId getDecoratorOptions
        line col phls lineText = Inr [])"
proof -
  have join: "pre \<noteq> [] \<and> hlId h = 0 \<longrightarrow>
      processColHighlights (pre @ [h]) =
        butlast (processColHighlights pre) @
        [(last (processColHighlights pre))
           \<lparr>fr_virtText := fr_virtText (last (processColHighlights pre)) @
                           (case virtText h of None \<Rightarrow> text h | Some v \<Rightarrow> v)\<rparr>] \<and>
      overlayCount (createColVirtTextOptions getDecorator line lineText col (pre @ [h])) =
        overlayCount (createColVirtTextOptions getDecorator line lineText col pre) \<and>
      (fst (getDecorator (fr_hlId (last (processColHighlights pre)))) \<noteq> None \<longrightarrow>
         overlayTexts (fr_hlId (last (processColHighlights pre)))
           (createColVirtTextOptions getDecorator line lineText col (pre @ [h])) =
         butlast (overlayTexts (fr_hlId (last (processColHighlights pre)))
                    (createColVirtTextOptions getDecorator line lineText col pre)) @
         [last (overlayTexts (fr_hlId (last (processColHighlights pre)))
                  (createColVirtTextOptions getDecorator line lineText col pre)) @
          (case virtText h of None \<Rightarrow> text h | Some v \<Rightarrow> v)]) \<and>
      (k' \<noteq> fr_hlId (last (processColHighlights pre)) \<longrightarrow>
         overlayTexts k' (createColVirtTextOptions getDecorator line lineText col (pre @ [h])) =
         overlayTexts k' (createColVirtTextOptions getDecorator line lineText col pre))"
  proof (intro impI, elim conjE)
    assume a: "pre \<noteq> []" "hlId h = 0"
    from processColHighlights_join[OF a]
      overlayCount_join[OF a, of getDecorator line lineText col]
      overlayTexts_join[OF a, of getDecorator line lineText col]
      overlayTexts_join_other[OF a, of k' getDecorator line lineText col]
    show "processColHighlights (pre @ [h]) =
        butlast (processColHighlights pre) @
        [(last (processColHighlights pre))
           \<lparr>fr_virtText := fr_virtText (last (processColHighlights pre)) @
                           (case virtText h of None \<Rightarrow> text h | Some v \<Rightarrow> v)\<rparr>] \<and>
      overlayCount (createColVirtTextOptions getDecorator line lineText col (pre @ [h])) =
        overlayCount (createColVirtTextOptions getDecorator line lineText col pre) \<and>
      (fst (getDecorator (fr_hlId (last (processColHighlights pre)))) \<noteq> None \<longrightarrow>
         overlayTexts (fr_hlId (last (processColHighlights pre)))
           (createColVirtTextOptions getDecorator line lineText col (pre @ [h])) =
         butlast (overlayTexts (fr_hlId (last (processColHighlights pre)))
                    (createColVirtTextOptions getDecorator line lineText col pre)) @
         [last (overlayTexts (fr_hlId (last (processColHighlights pre)))
                  (createColVirtTextOptions getDecorator line lineText col pre)) @
          (case virtText h of None \<Rightarrow> text h | Some v \<Rightarrow> v)]) \<and>
      (k' \<noteq> fr_hlId (last (processColHighlights pre)) \<longrightarrow>
         overlayTexts k' (createColVirtTextOptions getDecorator line lineText col (pre @ [h])) =
         overlayTexts k' (createColVirtTextOptions getDecorator line lineText col pre))"
      by blast
  qed
  have zero: "hls \<noteq> [] \<and> hlId (hd hls) \<noteq> 0 \<longrightarrow>
      overlayTexts 0 (createColVirtTextOptions getDecorator line lineText col hls) = []"
    using overlayTexts_zero[of hls getDecorator line lineText col] by blast
  have skip: "list_all (\<lambda>hl. hlId hl = 0) (vr_highlights v) \<longrightarrow>
      highlightRangesToOptions lineAt getDecorator (rs1 @ VirtualRange v # rs2) =
      highlightRangesToOptions lineAt getDecorator (rs1 @ rs2)"
    using highlightRangesToOptions_skip[of v lineAt getDecorator rs1 rs2]
    by (simp add: list_all_iff)
  have pjoin: "ppre \<noteq> [] \<and> ph_hlId ph = 0 \<longrightarrow>
      processColHighlights_provider (ppre @ [ph]) =
        butlast (processColHighlights_provider ppre) @
        [(last (processColHighlights_provider ppre))
           \<lparr>pf_virtText := js_append (pf_virtText (last (processColHighlights_provider ppre)))
                              (ph_virtText ph)\<rparr>]"
    using processColHighlights_provider_join[of ppre ph] by blast
  have pemit: "list_all (\<lambda>h. ph_virtText h \<noteq> None) phls \<longrightarrow>
      (\<exists>m. createColVirtTextOptions_provider getDecoratorForHighlightId getDecoratorOptions
              line col phls lineText = Inr m \<and>
           providerTexts k m =
             (if getDecoratorForHighlightId k = None then []
              else map (\<lambda>f. replace_first SPACE 8205 (fragmentText f))
                     (filter (\<lambda>f. pf_hlId f = k) (processColHighlights_provider phls))) \<and>
           overlayCount m =
             length (filter (\<lambda>f. getDecoratorForHighlightId (pf_hlId f) \<noteq> None)
                       (processColHighlights_provider phls)))"
    using provider_overlays[of phls getDecoratorForHighlightId getDecoratorOptions line col
        lineText k]
    unfolding list_all_iff by blast
  have pzero: "list_all (\<lambda>h. ph_hlId h = 0) phls \<and> getDecoratorForHighlightId 0 = None \<longrightarrow>
      createColVirtTextOptions_provider getDecoratorForHighlightId getDecoratorOptions
        line col phls lineText = Inr []"
    using provider_all_zero[of phls getDecoratorForHighlightId getDecoratorOptions line col
        lineText]
    unfolding list_all_iff by blast
  show ?thesis
    using join overlayTexts_create[of k getDecorator line lineText col hls]
      overlayCount_create[of getDecorator line lineText col hls]
      processColHighlights_count[of e es] zero skip pjoin pemit pzero
    by (intro conjI)
qed

text \<open>
  The column of a double-width glyph drawn as two cells, \<open>a\<close> with id 2 and the filler
  space with id 0, on the line \<open>ab\<close> at column 1, where every id but 0 has a
  decorator: the one fragment \<open>"a "\<close> of id 2, one overlay, with that text, and none
  under id 0; a range of two id-0 entries gives no decoration. In the older provider
  the same column gives the one fragment and one overlay, its first space replaced,
  and a column of two id-0 entries gives nothing.
\<close>

theorem id0_entry_joins_previous_fragment_witness:
  "processColHighlights
     [\<lparr>text = [97], hlId = 2, virtText = Some [97]\<rparr>,
      \<lparr>text = [32], hlId = 0, virtText = Some [32]\<rparr>] =
     [\<lparr>fr_hlId = 2, fr_virtText = [97, 32]\<rparr>] \<and>
   overlayTexts 2
     (createColVirtTextOptions (\<lambda>k. (if k = 0 then None else Some k, ())) 0 [97, 98] 1
        [\<lparr>text = [97], hlId = 2, virtText = Some [97]\<rparr>,
         \<lparr>text = [32], hlId = 0, virtText = Some [32]\<rparr>]) = [[97, 32]] \<and>
   overlayCount
     (createColVirtTextOptions (\<lambda>k. (if k = 0 then None else Some k, ())) 0 [97, 98] 1
        [\<lparr>text = [97], hlId = 2, virtText = Some [97]\<rparr>,
         \<lparr>text = [32], hlId = 0, virtText = Some [32]\<rparr>]) = 1 \<and>
   overlayTexts 0
     (createColVirtTextOptions (\<lambda>k. (if k = 0 then None else Some k, ())) 0 [97, 98] 1
        [\<lparr>text = [97], hlId = 2, virtText = Some [97]\<rparr>,
         \<lparr>text = [32], hlId = 0, virtText = Some [32]\<rparr>]) = [] \<and>
   highlightRangesToOptions (\<lambda>line. [97, 98]) (\<lambda>k. (if k = 0 then None else Some k, ()))
     [VirtualRange \<lparr>vr_highlights = [\<lparr>text = [32], hlId = 0, virtText = Some [32]\<rparr>,
                                      \<lparr>text = [32], hlId = 0, virtText = Some [32]\<rparr>],
                    vr_line = 0, vr_col = 0\<rparr>] = [] \<and>
   processColHighlights_provider
     [\<lparr>ph_hlId = 2, ph_virtText = Some [97]\<rparr>, \<lparr>ph_hlId = 0, ph_virtText = Some [32]\<rparr>] =
     [\<lparr>pf_hlId = 2, pf_virtText = JsString [97, 32]\<rparr>] \<and>
   (\<exists>m. createColVirtTextOptions_provider (\<lambda>k. if k = 0 then None else Some k) (\<lambda>d. ()) 0 1
           [\<lparr>ph_hlId = 2, ph_virtText = Some [97]\<rparr>, \<lparr>ph_hlId = 0, ph_virtText = Some [32]\<rparr>]
           [97, 98] = Inr m \<and>
        providerTexts 2 m = [[97, 8205]] \<and> overlayCount m = 1) \<and>
   createColVirtTextOptions_provider (\<lambda>k. if k = 0 then None else Some k) (\<lambda>d. ()) 0 1
     [\<lparr>ph_hlId = 0, ph_virtText = Some [32]\<rparr>, \<lparr>ph_hlId = 0, ph_virtText = Some [32]\<rparr>]
     [97, 98] = Inr []"
proof -
  let ?a = "\<lparr>text = [97], hlId = 2, virtText = Some [97]\<rparr> :: highlight"
  let ?e = "\<lparr>text = [32], hlId = 0, virtText = Some [32]\<rparr> :: highlight"
  let ?v = "\<lparr>vr_highlights = [?e, ?e], vr_line = 0, vr_col = 0\<rparr>"
  let ?pa = "\<lparr>ph_hlId = 2, ph_virtText = Some [97]\<rparr>"
  let ?pe = "\<lparr>ph_hlId = 0, ph_virtText = Some [32]\<rparr>"
  let ?g = "\<lambda>k::nat. (if k = 0 then None else Some k, ())"
  let ?gp = "\<lambda>k::nat. if k = 0 then None else Some k"
  have one: "processColHighlights [?a] = [\<lparr>fr_hlId = 2, fr_virtText = [97]\<rparr>]"
    by (simp add: processColHighlights_def addFragment_def)
  have pone: "processColHighlights_provider [?pa] = [\<lparr>pf_hlId = 2, pf_virtText = JsString [97]\<rparr>]"
    by (simp add: processColHighlights_provider_def addFragment_provider_def)
  have none: "highlightRangesToOptions (\<lambda>line. [97, 98]) ?g [] =
          ([] :: (nat \<times> unit decoration_options list) list)"
    by (simp add: highlightRangesToOptions_def)
  note thm1 = id0_entry_joins_previous_fragment
         [where pre = "[?a]" and h = ?e and getDecorator = ?g and line = 0
            and lineText = "[97, 98]" and col = 1 and k' = 0 and k = 2 and hls = "[?a, ?e]"
            and e = ?a and es = "[?e]" and v = ?v and lineAt = "\<lambda>line. [97, 98]"
            and ?rs1.0 = "[]" and ?rs2.0 = "[]" and ppre = "[?pa]" and ph = ?pe
            and phls = "[?pa, ?pe]" and getDecoratorForHighlightId = ?gp
            and getDecoratorOptions = "\<lambda>d. ()"]
  note thm2 = id0_entry_joins_previous_fragment
         [where pre = "[?a]" and h = ?e and getDecorator = ?g and line = 0
            and lineText = "[97, 98]" and col = 1 and k' = 0 and k = 2 and hls = "[?a, ?e]"
            and e = ?a and es = "[?e]" and v = ?v and lineAt = "\<lambda>line. [97, 98]"
            and ?rs1.0 = "[]" and ?rs2.0 = "[]" and ppre = "[?pa]" and ph = ?pe
            and phls = "[?pe, ?pe]" and getDecoratorForHighlightId = ?gp
            and getDecoratorOptions = "\<lambda>d. ()"]
  note join = thm1[THEN conjunct1]
  note texts_of = thm1[THEN conjunct2, THEN conjunct1]
  note count_of = thm1[THEN conjunct2, THEN conjunct2, THEN conjunct1]
  note no_zero = thm1[THEN conjunct2, THEN conjunct2, THEN conjunct2, THEN conjunct2,
      THEN conjunct1]
  note skipped = thm1[THEN conjunct2, THEN conjunct2, THEN conjunct2, THEN conjunct2,
      THEN conjunct2, THEN conjunct1]
  note pjoin = thm1[THEN conjunct2, THEN conjunct2, THEN conjunct2, THEN conjunct2,
      THEN conjunct2, THEN conjunct2, THEN conjunct1]
  note pemit_of = thm1[THEN conjunct2, THEN conjunct2, THEN conjunct2, THEN conjunct2,
      THEN conjunct2, THEN conjunct2, THEN conjunct2, THEN conjunct1]
  note pzero_of = thm2[THEN conjunct2, THEN conjunct2, THEN conjunct2, THEN conjunct2,
      THEN conjunct2, THEN conjunct2, THEN conjunct2, THEN conjunct2]
  have h: "[?a] \<noteq> [] \<and> hlId ?e = 0" by simp
  have frag: "processColHighlights [?a, ?e] = [\<lparr>fr_hlId = 2, fr_virtText = [97, 32]\<rparr>]"
    using join[THEN mp, OF h, THEN conjunct1] unfolding one by simp
  have texts: "overlayTexts 2 (createColVirtTextOptions ?g 0 [97, 98] 1 [?a, ?e]) = [[97, 32]]"
    using texts_of unfolding frag by simp
  have count: "overlayCount (createColVirtTextOptions ?g 0 [97, 98] 1 [?a, ?e]) = 1"
    using count_of unfolding frag by simp
  have h0: "[?a, ?e] \<noteq> [] \<and> hlId (hd [?a, ?e]) \<noteq> 0" by simp
  have zero: "overlayTexts 0 (createColVirtTextOptions ?g 0 [97, 98] 1 [?a, ?e]) = []"
    by (rule no_zero[THEN mp, OF h0])
  have hv: "list_all (\<lambda>hl. hlId hl = 0) (vr_highlights ?v)" by simp
  have skip: "highlightRangesToOptions (\<lambda>line. [97, 98]) ?g [VirtualRange ?v] = []"
    using skipped[THEN mp, OF hv] none by simp
  have hp: "[?pa] \<noteq> [] \<and> ph_hlId ?pe = 0" by simp
  have pfrag: "processColHighlights_provider [?pa, ?pe] =
      [\<lparr>pf_hlId = 2, pf_virtText = JsString [97, 32]\<rparr>]"
    using pjoin[THEN mp, OF hp] unfolding pone by simp
  have hs: "list_all (\<lambda>h. ph_virtText h \<noteq> None) [?pa, ?pe]" by simp
  have pemit: "\<exists>m. createColVirtTextOptions_provider ?gp (\<lambda>d. ()) 0 1 [?pa, ?pe] [97, 98] = Inr m \<and>
        providerTexts 2 m = [[97, 8205]] \<and> overlayCount m = 1"
    using pemit_of[THEN mp, OF hs] unfolding pfrag by (simp add: fragmentText_def)
  have hz: "list_all (\<lambda>h. ph_hlId h = 0) [?pe, ?pe] \<and> ?gp 0 = None" by simp
  have pzero: "createColVirtTextOptions_provider ?gp (\<lambda>d. ()) 0 1 [?pe, ?pe] [97, 98] = Inr []"
    by (rule pzero_of[THEN mp, OF hz])
  from frag texts count zero skip pfrag pemit pzero show ?thesis
    by (intro conjI)
qed

end
